theory Spec2Isabelle
  imports Complex_Main
begin

section \<open>The typing engine of src/index.ts (class TypedText)\<close>

text \<open>
  The class \<^verbatim>\<open>TypedText\<close> is embedded as a record of its private fields together with
  the collaborators it talks to: the text span, the cursor span, the host element and the
  timer facility of the window (\<^verbatim>\<open>setTimeout\<close>, \<^verbatim>\<open>clearTimeout\<close>, \<^verbatim>\<open>setInterval\<close>,
  \<^verbatim>\<open>clearInterval\<close>). Every method is a function from the state to the state it leaves.

  Conventions.
  \<^item> A JavaScript number that holds a delay is a \<open>real\<close> (doubles are idealised: no
    rounding, no NaN, no infinities). The two indices only ever hold integers and are \<open>int\<close>.
  \<^item> A JavaScript string is the list of its code units; \<open>length\<close> and \<open>substring\<close> count
    code units, as the source does.
  \<^item> A timer handle is a \<open>nat\<close>; the window hands out fresh handles, starting at 1, from
    one counter for timeouts and intervals. The window's queue is the list of pending
    timeouts, each with the delay it was given; \<^verbatim>\<open>clearTimeout\<close> is only ever applied to a
    handle that \<^verbatim>\<open>setTimeout\<close> returned, \<^verbatim>\<open>clearInterval\<close> to one of \<^verbatim>\<open>setInterval\<close>.
    Every timeout of this class runs \<^verbatim>\<open>() => this.typeText()\<close>, so the callback is not stored.
    When several timeouts are pending, the model lets any of them fire next.
  \<^item> The three optional callbacks \<^verbatim>\<open>onStringStart\<close>, \<^verbatim>\<open>onStringComplete\<close> and
    \<^verbatim>\<open>onComplete\<close> are collaborators: each place where the source calls one appends the
    call to the trace. A registered callback is taken to return normally and not to call
    back into the engine. Writes to the text span are appended to the trace as well.
  \<^item> A \<^verbatim>\<open>TypeError\<close> raised by reading a property of \<^verbatim>\<open>undefined\<close> is the outcome
    \<open>Threw\<close>, which carries the state the method had reached when it raised (JavaScript
    does not roll a mutation back).
\<close>

subsection \<open>Configuration\<close>

datatype TypeSpeedCurvature = Linear | Bezier | Exponential | Sine

text \<open>\<^verbatim>\<open>this.options\<close>: every option resolved (the callbacks live in the trace).\<close>

record Options =
  strings :: "string list"
  typeSpeed :: real
  loop :: bool
  typeSpeedCurvature :: TypeSpeedCurvature
  showCursor :: bool
  cursorChar :: string
  backSpeed :: real
  backDelay :: real
  startDelay :: real

text \<open>
  The optional keys of \<^verbatim>\<open>TypedTextOptions\<close>; \<open>None\<close> is an absent key. The constructor's
  argument adds the required \<^verbatim>\<open>strings\<close>; the argument of \<^verbatim>\<open>updateOptions\<close>
  (\<^verbatim>\<open>Partial<TypedTextOptions>\<close>) makes \<^verbatim>\<open>strings\<close> optional too. A key that is present
  holds a value of its type (a key set to \<^verbatim>\<open>undefined\<close> is not modelled).
\<close>

record OptionalKeys =
  typeSpeed_key :: "real option"
  loop_key :: "bool option"
  typeSpeedCurvature_key :: "TypeSpeedCurvature option"
  showCursor_key :: "bool option"
  cursorChar_key :: "string option"
  backSpeed_key :: "real option"
  backDelay_key :: "real option"
  startDelay_key :: "real option"

record TypedTextOptions = OptionalKeys +
  strings_arg :: "string list"

record PartialOptions = OptionalKeys +
  strings_key :: "string list option"

subsection \<open>State\<close>

datatype error = TypeError | ElementNotFound

datatype node = TextSpan | CursorSpan

datatype effect =
    OnStringStart int
  | OnStringComplete int
  | OnComplete
  | SetText string

record TypedText =
  options :: Options
  displayText :: string
  currentStringIndex :: int
  currentCharIndex :: int
  isTyping :: bool
  this_showCursor :: bool
  timeoutId :: "nat option"
  cursorIntervalId :: "nat option"
  isDestroyed :: bool
  \<comment> \<open>the DOM: \<^verbatim>\<open>element.innerHTML\<close>, \<^verbatim>\<open>textElement.textContent\<close>, the cursor's class \<^verbatim>\<open>hidden\<close>\<close>
  elementChildren :: "node list"
  textContent :: string
  cursorHidden :: bool
  \<comment> \<open>the window's timers\<close>
  timeouts :: "(nat \<times> real) list"
  intervals :: "(nat \<times> real) list"
  nextHandle :: nat
  \<comment> \<open>callbacks invoked and text written, oldest first\<close>
  trace :: "effect list"

datatype outcome = Returned TypedText | Threw error TypedText

fun after :: "outcome \<Rightarrow> TypedText" where
  "after (Returned s) = s"
| "after (Threw e s) = s"

fun threw :: "outcome \<Rightarrow> bool" where
  "threw (Returned s) = False"
| "threw (Threw e s) = True"

subsection \<open>JavaScript primitives\<close>

text \<open>\<^verbatim>\<open>xs[i]\<close>: \<^verbatim>\<open>undefined\<close> (here \<open>None\<close>) outside the array.\<close>

definition index :: "'a list \<Rightarrow> int \<Rightarrow> 'a option" where
  "index xs i = (if 0 \<le> i \<and> i < int (length xs) then Some (xs ! nat i) else None)"

text \<open>\<^verbatim>\<open>str.substring(0, n)\<close>: a negative \<open>n\<close> counts as 0, one past the end as the length.\<close>

definition substring :: "string \<Rightarrow> int \<Rightarrow> string" where
  "substring str n = take (nat n) str"

text \<open>\<^verbatim>\<open>if (id)\<close> on a handle that is a number or \<^verbatim>\<open>null\<close>: \<^verbatim>\<open>null\<close> and 0 are falsy.\<close>

definition truthy :: "nat option \<Rightarrow> bool" where
  "truthy handle = (case handle of None \<Rightarrow> False | Some h \<Rightarrow> h \<noteq> 0)"

definition setTimeout :: "real \<Rightarrow> TypedText \<Rightarrow> nat \<times> TypedText" where
  "setTimeout delay s =
     (nextHandle s,
      s\<lparr>timeouts := timeouts s @ [(nextHandle s, delay)], nextHandle := nextHandle s + 1\<rparr>)"

definition clearTimeout :: "nat \<Rightarrow> TypedText \<Rightarrow> TypedText" where
  "clearTimeout h s = s\<lparr>timeouts := filter (\<lambda>t. fst t \<noteq> h) (timeouts s)\<rparr>"

definition setInterval :: "real \<Rightarrow> TypedText \<Rightarrow> nat \<times> TypedText" where
  "setInterval period s =
     (nextHandle s,
      s\<lparr>intervals := intervals s @ [(nextHandle s, period)], nextHandle := nextHandle s + 1\<rparr>)"

definition clearInterval :: "nat \<Rightarrow> TypedText \<Rightarrow> TypedText" where
  "clearInterval h s = s\<lparr>intervals := filter (\<lambda>i. fst i \<noteq> h) (intervals s)\<rparr>"

definition emit :: "effect \<Rightarrow> TypedText \<Rightarrow> TypedText" where
  "emit e s = s\<lparr>trace := trace s @ [e]\<rparr>"

text \<open>\<^verbatim>\<open>this.textElement.textContent = this.displayText\<close>\<close>

definition writeText :: "TypedText \<Rightarrow> TypedText" where
  "writeText s = emit (SetText (displayText s)) (s\<lparr>textContent := displayText s\<rparr>)"

subsection \<open>The speed curve\<close>

text \<open>
  \<^verbatim>\<open>getSpeedMultiplier\<close>. The \<^verbatim>\<open>default\<close> branch of the switch is outside the type
  \<^verbatim>\<open>TypeSpeedCurvature\<close> and has no constructor here.
\<close>

fun getSpeedMultiplier :: "real \<Rightarrow> TypeSpeedCurvature \<Rightarrow> real" where
  "getSpeedMultiplier progress Linear = 1"
| "getSpeedMultiplier progress Bezier =
     (if progress < 0.5 then 4 * progress * progress * progress
      else 1 - (-2 * progress + 2) ^ 3 / 2)"
| "getSpeedMultiplier progress Exponential = progress ^ 3"
| "getSpeedMultiplier progress Sine = (sin (progress * pi - pi / 2) + 1) / 2"

text \<open>\<^verbatim>\<open>getCurrentTypeSpeed\<close>; \<^verbatim>\<open>!currentString\<close> holds for \<^verbatim>\<open>undefined\<close> and for \<^verbatim>\<open>''\<close>.\<close>

definition getCurrentTypeSpeed :: "TypedText \<Rightarrow> real" where
  "getCurrentTypeSpeed s =
     (if typeSpeedCurvature (options s) = Linear then typeSpeed (options s)
      else
        (case index (strings (options s)) (currentStringIndex s) of
           None \<Rightarrow> typeSpeed (options s)
         | Some currentString \<Rightarrow>
             if currentString = [] then typeSpeed (options s)
             else
               let progress = real_of_int (currentCharIndex s) / real (length currentString);
                   multiplier = getSpeedMultiplier progress (typeSpeedCurvature (options s))
               in typeSpeed (options s) * (3 - 2 * multiplier)))"

subsection \<open>The cursor\<close>

text \<open>The body of the interval callback of \<^verbatim>\<open>startCursorBlink\<close>.\<close>

definition cursorTick :: "TypedText \<Rightarrow> TypedText" where
  "cursorTick s =
     (if isDestroyed s then s
      else
        let s1 = s\<lparr>this_showCursor := \<not> this_showCursor s\<rparr>
        in s1\<lparr>cursorHidden := \<not> this_showCursor s1\<rparr>)"

definition startCursorBlink :: "TypedText \<Rightarrow> TypedText" where
  "startCursorBlink s =
     (if \<not> showCursor (options s) \<or> isDestroyed s then s
      else
        let (h, s1) = setInterval 530 s
        in s1\<lparr>cursorIntervalId := Some h\<rparr>)"

definition stopCursorBlink :: "TypedText \<Rightarrow> TypedText" where
  "stopCursorBlink s =
     (let s1 = (if truthy (cursorIntervalId s)
                then (clearInterval (the (cursorIntervalId s)) s)\<lparr>cursorIntervalId := None\<rparr>
                else s);
          s2 = s1\<lparr>this_showCursor := True\<rparr>
      in s2\<lparr>cursorHidden := False\<rparr>)"

subsection \<open>The step\<close>

text \<open>\<^verbatim>\<open>this.timeoutId = window.setTimeout(() => this.typeText(), delay)\<close>\<close>

definition schedule :: "real \<Rightarrow> TypedText \<Rightarrow> TypedText" where
  "schedule delay s = (let (h, s1) = setTimeout delay s in s1\<lparr>timeoutId := Some h\<rparr>)"

definition typeText :: "TypedText \<Rightarrow> outcome" where
  "typeText s =
     (if length (strings (options s)) = 0 \<or> isDestroyed s then Returned s
      else
        let currentString = index (strings (options s)) (currentStringIndex s) in
        if isTyping s then
          let s1 = (if currentCharIndex s = 0 then emit (OnStringStart (currentStringIndex s)) s
                    else s)
          in (case currentString of
                None \<Rightarrow> Threw TypeError s1
              | Some str \<Rightarrow>
                  if currentCharIndex s1 < int (length str) then
                    let s2 = s1\<lparr>displayText := substring str (currentCharIndex s1 + 1)\<rparr>;
                        s3 = writeText s2;
                        s4 = s3\<lparr>currentCharIndex := currentCharIndex s3 + 1\<rparr>;
                        currentSpeed = getCurrentTypeSpeed s4
                    in Returned (schedule currentSpeed s4)
                  else
                    let s2 = emit (OnStringComplete (currentStringIndex s1)) s1;
                        s3 = s2\<lparr>isTyping := False\<rparr>
                    in Returned (schedule (backDelay (options s3)) s3))
        else
          if currentCharIndex s > 0 then
            let s1 = s\<lparr>currentCharIndex := currentCharIndex s - 1\<rparr>
            in (case currentString of
                  None \<Rightarrow> Threw TypeError s1
                | Some str \<Rightarrow>
                    let s2 = s1\<lparr>displayText := substring str (currentCharIndex s1)\<rparr>;
                        s3 = writeText s2
                    in Returned (schedule (backSpeed (options s3)) s3))
          else
            let s1 = s\<lparr>currentStringIndex := currentStringIndex s + 1\<rparr>
            in if currentStringIndex s1 \<ge> int (length (strings (options s1))) then
                 if loop (options s1) then
                   let s2 = s1\<lparr>currentStringIndex := 0\<rparr>;
                       s3 = s2\<lparr>isTyping := True\<rparr>
                   in Returned (schedule 500 s3)
                 else Returned (emit OnComplete s1)
               else
                 let s3 = s1\<lparr>isTyping := True\<rparr>
                 in Returned (schedule 500 s3))"

subsection \<open>Public operations\<close>

definition start :: "TypedText \<Rightarrow> outcome" where
  "start s =
     (if isDestroyed s then Returned s
      else typeText (s\<lparr>currentStringIndex := 0, currentCharIndex := 0, isTyping := True\<rparr>))"

definition stop :: "TypedText \<Rightarrow> TypedText" where
  "stop s =
     (if truthy (timeoutId s) then (clearTimeout (the (timeoutId s)) s)\<lparr>timeoutId := None\<rparr>
      else s)"

definition destroy :: "TypedText \<Rightarrow> TypedText" where
  "destroy s =
     (let s1 = s\<lparr>isDestroyed := True\<rparr>;
          s2 = stop s1;
          s3 = stopCursorBlink s2
      in s3\<lparr>elementChildren := []\<rparr>)"

text \<open>
  \<^verbatim>\<open>this.options = { ...this.options, ...newOptions }\<close>: every key present in the argument
  replaces the option. (The three callback keys change no field of the model.)
\<close>

definition merge :: "Options \<Rightarrow> PartialOptions \<Rightarrow> Options" where
  "merge opts new =
     \<lparr>strings = (case strings_key new of None \<Rightarrow> strings opts | Some v \<Rightarrow> v),
      typeSpeed = (case typeSpeed_key new of None \<Rightarrow> typeSpeed opts | Some v \<Rightarrow> v),
      loop = (case loop_key new of None \<Rightarrow> loop opts | Some v \<Rightarrow> v),
      typeSpeedCurvature =
        (case typeSpeedCurvature_key new of None \<Rightarrow> typeSpeedCurvature opts | Some v \<Rightarrow> v),
      showCursor = (case showCursor_key new of None \<Rightarrow> showCursor opts | Some v \<Rightarrow> v),
      cursorChar = (case cursorChar_key new of None \<Rightarrow> cursorChar opts | Some v \<Rightarrow> v),
      backSpeed = (case backSpeed_key new of None \<Rightarrow> backSpeed opts | Some v \<Rightarrow> v),
      backDelay = (case backDelay_key new of None \<Rightarrow> backDelay opts | Some v \<Rightarrow> v),
      startDelay = (case startDelay_key new of None \<Rightarrow> startDelay opts | Some v \<Rightarrow> v)\<rparr>"

definition updateOptions :: "PartialOptions \<Rightarrow> TypedText \<Rightarrow> TypedText" where
  "updateOptions newOptions s =
     (if isDestroyed s then s else s\<lparr>options := merge (options s) newOptions\<rparr>)"

definition reset :: "TypedText \<Rightarrow> TypedText" where
  "reset s =
     (if isDestroyed s then s
      else
        let s1 = stop s;
            s2 = s1\<lparr>currentStringIndex := 0, currentCharIndex := 0, isTyping := True,
                    displayText := []\<rparr>
        in writeText s2)"

text \<open>\<^verbatim>\<open>this.options.strings[this.currentStringIndex] || ''\<close>\<close>

definition getCurrentString :: "TypedText \<Rightarrow> string" where
  "getCurrentString s =
     (case index (strings (options s)) (currentStringIndex s) of None \<Rightarrow> [] | Some str \<Rightarrow> str)"

definition getCurrentStringIndex :: "TypedText \<Rightarrow> int" where
  "getCurrentStringIndex s = currentStringIndex s"

definition isRunning :: "TypedText \<Rightarrow> bool" where
  "isRunning s = (timeoutId s \<noteq> None)"

subsection \<open>Construction\<close>

text \<open>The \<^verbatim>\<open>??\<close> defaults of the constructor.\<close>

definition resolve :: "TypedTextOptions \<Rightarrow> Options" where
  "resolve opts =
     \<lparr>strings = strings_arg opts,
      typeSpeed = (case typeSpeed_key opts of None \<Rightarrow> 50 | Some v \<Rightarrow> v),
      loop = (case loop_key opts of None \<Rightarrow> False | Some v \<Rightarrow> v),
      typeSpeedCurvature = (case typeSpeedCurvature_key opts of None \<Rightarrow> Sine | Some v \<Rightarrow> v),
      showCursor = (case showCursor_key opts of None \<Rightarrow> True | Some v \<Rightarrow> v),
      cursorChar = (case cursorChar_key opts of None \<Rightarrow> ''|'' | Some v \<Rightarrow> v),
      backSpeed = (case backSpeed_key opts of None \<Rightarrow> 25 | Some v \<Rightarrow> v),
      backDelay = (case backDelay_key opts of None \<Rightarrow> 1000 | Some v \<Rightarrow> v),
      startDelay = (case startDelay_key opts of None \<Rightarrow> 0 | Some v \<Rightarrow> v)\<rparr>"

text \<open>The field initialisers of the class, on a window that has handed out no timer yet.\<close>

definition initial_fields :: "Options \<Rightarrow> TypedText" where
  "initial_fields opts =
     \<lparr>options = opts, displayText = [], currentStringIndex = 0, currentCharIndex = 0,
      isTyping = True, this_showCursor = True, timeoutId = None, cursorIntervalId = None,
      isDestroyed = False, elementChildren = [], textContent = [], cursorHidden = False,
      timeouts = [], intervals = [], nextHandle = 1, trace = []\<rparr>"

text \<open>
  \<^verbatim>\<open>init\<close>. The start-delay timeout is created with a bare \<^verbatim>\<open>setTimeout\<close>: its handle is
  dropped, \<^verbatim>\<open>this.timeoutId\<close> is not assigned. (The style sheet added by \<^verbatim>\<open>addStyles\<close>
  and the inline styles are not part of the state.)
\<close>

definition init :: "TypedText \<Rightarrow> outcome" where
  "init s =
     (if isDestroyed s then Returned s
      else
        let s1 = s\<lparr>elementChildren := []\<rparr>;
            s2 = s1\<lparr>textContent := [], cursorHidden := False\<rparr>;
            s3 = s2\<lparr>elementChildren := elementChildren s2 @ [TextSpan]\<rparr>;
            s4 = (if showCursor (options s3)
                  then s3\<lparr>elementChildren := elementChildren s3 @ [CursorSpan]\<rparr> else s3);
            s5 = startCursorBlink s4
        in if length (strings (options s5)) > 0 then
             if startDelay (options s5) > 0 then
               Returned (snd (setTimeout (startDelay (options s5)) s5))
             else typeText s5
           else Returned s5)"

text \<open>
  \<^verbatim>\<open>new TypedText(element, options)\<close>; \<open>found\<close> says whether the element argument
  resolves to an element (a selector that matches nothing throws).
\<close>

definition new_TypedText :: "bool \<Rightarrow> TypedTextOptions \<Rightarrow> error + TypedText" where
  "new_TypedText found opts =
     (if \<not> found then Inl ElementNotFound
      else (case init (initial_fields (resolve opts)) of
              Returned s \<Rightarrow> Inr s
            | Threw e s \<Rightarrow> Inl e))"

subsection \<open>Runs\<close>

text \<open>
  What can happen to an engine: a pending timeout fires (the window removes it from its
  queue and runs the step), an active interval fires (it stays active), or a public
  operation is called. A handle that is not pending fires nothing.
\<close>

datatype call =
    FireTimeout nat
  | FireInterval nat
  | Start
  | Stop
  | Destroy
  | Reset
  | UpdateOptions PartialOptions

fun exec :: "call \<Rightarrow> TypedText \<Rightarrow> outcome" where
  "exec (FireTimeout h) s =
     (if h \<in> fst ` set (timeouts s) then typeText (clearTimeout h s) else Returned s)"
| "exec (FireInterval h) s =
     (if h \<in> fst ` set (intervals s) then Returned (cursorTick s) else Returned s)"
| "exec Start s = start s"
| "exec Stop s = Returned (stop s)"
| "exec Destroy s = Returned (destroy s)"
| "exec Reset s = Returned (reset s)"
| "exec (UpdateOptions new) s = Returned (updateOptions new s)"

text \<open>A run: each call acts on the state the previous one left, also when that one threw.\<close>

fun run :: "call list \<Rightarrow> TypedText \<Rightarrow> TypedText" where
  "run [] s = s"
| "run (c # cs) s = run cs (after (exec c s))"

text \<open>
  The engine that \<^verbatim>\<open>new TypedText(element, opts)\<close> returns when the element resolves
  (\<open>new_TypedText True opts = Inr (constructed opts)\<close>, lemma \<open>new_TypedText_constructed\<close>).
\<close>

definition constructed :: "TypedTextOptions \<Rightarrow> TypedText" where
  "constructed opts = after (init (initial_fields (resolve opts)))"

text \<open>
  The engine's own chain of steps: the timeout that \<^verbatim>\<open>this.timeoutId\<close> names fires,
  \<open>n\<close> times in a row, with no public operation in between.
\<close>

definition step :: "TypedText \<Rightarrow> TypedText" where
  "step s = (case timeoutId s of None \<Rightarrow> s | Some h \<Rightarrow> after (exec (FireTimeout h) s))"

fun steps :: "nat \<Rightarrow> TypedText \<Rightarrow> TypedText" where
  "steps 0 s = s"
| "steps (Suc n) s = steps n (step s)"

text \<open>A call that leaves \<^verbatim>\<open>options.strings\<close> alone: all but an update that carries the key.\<close>

fun keeps_strings :: "call \<Rightarrow> bool" where
  "keeps_strings (UpdateOptions new) = (strings_key new = None)"
| "keeps_strings c = True"

text \<open>
  The window's handles are fresh: every pending timeout has a handle the window has
  already handed out.
\<close>

definition fresh_handles :: "TypedText \<Rightarrow> bool" where
  "fresh_handles s = (\<forall>t \<in> set (timeouts s). fst t < nextHandle s)"

text \<open>
  A run in progress: the engine is alive, the indices are inside the array and the current
  string, the window holds exactly one timeout, the one \<^verbatim>\<open>this.timeoutId\<close> names, and
  \<^verbatim>\<open>onComplete\<close> has not been called. A looping run is a run in progress with loop on.
\<close>

definition running :: "TypedText \<Rightarrow> bool" where
  "running s =
     (strings (options s) \<noteq> [] \<and> \<not> isDestroyed s \<and>
      0 \<le> currentStringIndex s \<and> currentStringIndex s < int (length (strings (options s))) \<and>
      0 \<le> currentCharIndex s \<and> currentCharIndex s \<le> int (length (getCurrentString s)) \<and>
      (\<exists>h d. timeoutId s = Some h \<and> timeouts s = [(h, d)]) \<and>
      OnComplete \<notin> set (trace s))"

definition looping :: "TypedText \<Rightarrow> bool" where
  "looping s = (loop (options s) \<and> running s)"

text \<open>The last string has been erased: the next step wraps or completes.\<close>

definition erased_last :: "TypedText \<Rightarrow> bool" where
  "erased_last s =
     (\<not> isTyping s \<and> \<not> currentCharIndex s > 0 \<and>
      currentStringIndex s + 1 \<ge> int (length (strings (options s))))"

text \<open>The engine is about to type the first string from its first character.\<close>

definition at_start :: "TypedText \<Rightarrow> bool" where
  "at_start s = (currentStringIndex s = 0 \<and> currentCharIndex s = 0 \<and> isTyping s)"

text \<open>
  The number of steps a run in progress takes to wrap or complete: the rest of the current
  string (typing it out, the completion step, erasing it, the advancing step), then the
  same for every later string.
\<close>

definition remaining :: "TypedText \<Rightarrow> nat" where
  "remaining s =
     (if isTyping s
      then (length (getCurrentString s) - nat (currentCharIndex s)) + 1
           + length (getCurrentString s) + 1
      else nat (currentCharIndex s) + 1)
     + sum_list (map (\<lambda>str. 2 * length str + 2)
                  (drop (Suc (nat (currentStringIndex s))) (strings (options s))))"

subsection \<open>Example configurations\<close>

text \<open>A constructor argument with \<^verbatim>\<open>strings\<close> only; a partial update with no key.\<close>

definition only_strings :: "string list \<Rightarrow> TypedTextOptions" where
  "only_strings strs =
     \<lparr>typeSpeed_key = None, loop_key = None, typeSpeedCurvature_key = None,
      showCursor_key = None, cursorChar_key = None, backSpeed_key = None,
      backDelay_key = None, startDelay_key = None, strings_arg = strs\<rparr>"

definition no_keys :: PartialOptions where
  "no_keys =
     \<lparr>typeSpeed_key = None, loop_key = None, typeSpeedCurvature_key = None,
      showCursor_key = None, cursorChar_key = None, backSpeed_key = None,
      backDelay_key = None, startDelay_key = None, strings_key = None\<rparr>"

text \<open>\<^verbatim>\<open>{strings: ["ab"], loop: false}\<close>\<close>

definition config_ab :: TypedTextOptions where
  "config_ab = (only_strings [''ab''])\<lparr>loop_key := Some False\<rparr>"

text \<open>\<^verbatim>\<open>{strings: ["a", "b"], loop: true}\<close>\<close>

definition config_loop :: TypedTextOptions where
  "config_loop = (only_strings [''a'', ''b''])\<lparr>loop_key := Some True\<rparr>"

text \<open>\<^verbatim>\<open>{strings: ["ab"], startDelay: 100}\<close>\<close>

definition config_delayed :: TypedTextOptions where
  "config_delayed = (only_strings [''ab''])\<lparr>startDelay_key := Some 100\<rparr>"

text \<open>\<^verbatim>\<open>{strings: ["hello"]}\<close>, and the update \<^verbatim>\<open>{strings: ["a"]}\<close>\<close>

definition config_hello :: TypedTextOptions where
  "config_hello = only_strings [''hello'']"

definition strings_a :: PartialOptions where
  "strings_a = no_keys\<lparr>strings_key := Some [''a'']\<rparr>"

text \<open>\<^verbatim>\<open>{strings: ["", "b"]}\<close>\<close>

definition config_empty_first :: TypedTextOptions where
  "config_empty_first = only_strings [[], ''b'']"

text \<open>That engine after \<^verbatim>\<open>reset()\<close>: about to take its step on the empty string.\<close>

definition before_empty :: TypedText where
  "before_empty = reset (constructed config_empty_first)"

text \<open>
  The scenario of the specification: \<^verbatim>\<open>{strings: ["Hi"], typeSpeed: 100,
  typeSpeedCurvature: "linear", backSpeed: 50, backDelay: 200}\<close>.
\<close>

definition scenario_Hi :: TypedTextOptions where
  "scenario_Hi =
     \<lparr>typeSpeed_key = Some 100, loop_key = None, typeSpeedCurvature_key = Some Linear,
      showCursor_key = None, cursorChar_key = None, backSpeed_key = Some 50,
      backDelay_key = Some 200, startDelay_key = None, strings_arg = [''Hi'']\<rparr>"

text \<open>
  The engine of that scenario at the moment its second step starts (timeout 2 has just left
  the queue; "H" is shown), and at the moment its first erasing step starts (timeout 4 has
  just left the queue; "Hi" is shown).
\<close>

definition typing_Hi :: TypedText where
  "typing_Hi = clearTimeout 2 (constructed scenario_Hi)"

definition erasing_Hi :: TypedText where
  "erasing_Hi = clearTimeout 4 (steps 2 (constructed scenario_Hi))"

section \<open>Properties\<close>

subsection \<open>Auxiliary facts\<close>

lemma schedule_eq:
  "schedule d s =
     s\<lparr>timeouts := timeouts s @ [(nextHandle s, d)], nextHandle := nextHandle s + 1,
       timeoutId := Some (nextHandle s)\<rparr>"
  by (simp add: schedule_def setTimeout_def)

lemmas step_defs = typeText_def Let_def schedule_eq writeText_def emit_def substring_def

lemma steps_numeral: "steps (numeral k) s = steps (pred_numeral k) (step s)"
  by (simp add: numeral_eq_Suc)

text \<open>Everything a concrete run unfolds to.\<close>

lemmas eval_defs =
  constructed_def init_def initial_fields_def resolve_def startCursorBlink_def setInterval_def
  setTimeout_def typeText_def Let_def schedule_eq writeText_def emit_def substring_def index_def
  clearTimeout_def clearInterval_def getCurrentTypeSpeed_def getCurrentString_def
  start_def stop_def destroy_def reset_def updateOptions_def merge_def stopCursorBlink_def
  cursorTick_def truthy_def isRunning_def step_def
  only_strings_def no_keys_def config_ab_def config_loop_def config_delayed_def
  config_hello_def strings_a_def config_empty_first_def scenario_Hi_def

subsubsection \<open>Construction never throws a TypeError\<close>

lemma init_Returned: "\<not> threw (init (initial_fields opts))"
  by (auto simp: init_def initial_fields_def startCursorBlink_def setInterval_def setTimeout_def
      step_defs index_def split: option.splits)

lemma new_TypedText_constructed: "new_TypedText True opts = Inr (constructed opts)"
  using init_Returned [of "resolve opts"]
  by (cases "init (initial_fields (resolve opts))") (simp_all add: new_TypedText_def constructed_def)

subsubsection \<open>Fields that operations leave alone\<close>

lemma typeText_options: "options (after (typeText s)) = options s"
  by (auto simp: step_defs split: option.splits)

lemma stop_fields:
  "options (stop s) = options s" "currentCharIndex (stop s) = currentCharIndex s"
  "currentStringIndex (stop s) = currentStringIndex s" "isDestroyed (stop s) = isDestroyed s"
  by (simp_all add: stop_def clearTimeout_def)

lemma startCursorBlink_fields:
  "options (startCursorBlink s) = options s"
  "currentCharIndex (startCursorBlink s) = currentCharIndex s"
  "currentStringIndex (startCursorBlink s) = currentStringIndex s"
  by (simp_all add: startCursorBlink_def setInterval_def)

lemma getCurrentString_cong:
  "options t = options s \<Longrightarrow> currentStringIndex t = currentStringIndex s \<Longrightarrow>
   getCurrentString t = getCurrentString s"
  by (simp add: getCurrentString_def)

subsection \<open>The delay of a typing step under the linear curvature\<close>

text \<open>
  C6. When \<^verbatim>\<open>typeSpeedCurvature\<close> is \<^verbatim>\<open>'linear'\<close>, \<^verbatim>\<open>getCurrentTypeSpeed\<close> returns the
  configured \<^verbatim>\<open>typeSpeed\<close> whatever the indices are, and a step of the typing phase that
  appends a character schedules the next step after exactly \<^verbatim>\<open>typeSpeed\<close>.
\<close>

theorem C6_linear_delay_is_typeSpeed:
  assumes "typeSpeedCurvature (options s) = Linear"
  shows "getCurrentTypeSpeed s = typeSpeed (options s) \<and>
         (strings (options s) \<noteq> [] \<and> \<not> isDestroyed s \<and> isTyping s \<and>
          index (strings (options s)) (currentStringIndex s) = Some str \<and>
          currentCharIndex s < int (length str) \<longrightarrow>
          (\<exists>s'. typeText s = Returned s' \<and>
                timeoutId s' = Some (nextHandle s) \<and>
                timeouts s' = timeouts s @ [(nextHandle s, typeSpeed (options s))]))"
  using assms
  by (simp add: getCurrentTypeSpeed_def typeText_def Let_def schedule_eq writeText_def emit_def)

text \<open>In the scenario "Hi", the step that types "i": the next step is 100 ms away.\<close>

theorem C6_witness:
  "typeSpeedCurvature (options typing_Hi) = Linear \<and>
   getCurrentTypeSpeed typing_Hi = 100 \<and>
   strings (options typing_Hi) \<noteq> [] \<and> \<not> isDestroyed typing_Hi \<and> isTyping typing_Hi \<and>
   index (strings (options typing_Hi)) (currentStringIndex typing_Hi) = Some ''Hi'' \<and>
   currentCharIndex typing_Hi < int (length ''Hi'') \<and>
   (\<exists>s'. typeText typing_Hi = Returned s' \<and>
         timeoutId s' = Some 3 \<and> timeouts s' = [(3, 100)])"
proof -
  have lin: "typeSpeedCurvature (options typing_Hi) = Linear"
    by (simp add: typing_Hi_def eval_defs)
  have pre: "strings (options typing_Hi) \<noteq> [] \<and> \<not> isDestroyed typing_Hi \<and>
      isTyping typing_Hi \<and>
      index (strings (options typing_Hi)) (currentStringIndex typing_Hi) = Some ''Hi'' \<and>
      currentCharIndex typing_Hi < int (length ''Hi'')"
    by (simp add: typing_Hi_def eval_defs)
  have vals: "typeSpeed (options typing_Hi) = 100" "nextHandle typing_Hi = 3"
    "timeouts typing_Hi = []"
    by (simp_all add: typing_Hi_def eval_defs)
  from C6_linear_delay_is_typeSpeed [OF lin, of "''Hi''"] pre lin show ?thesis
    by (simp add: vals)
qed

subsection \<open>A backspacing step\<close>

text \<open>
  C7. A step of the backspacing phase with \<^verbatim>\<open>currentCharIndex > 0\<close> (on an engine that is
  not destroyed and has a current string) decrements \<^verbatim>\<open>currentCharIndex\<close>, shows the first
  \<^verbatim>\<open>currentCharIndex\<close> characters of the current string, and schedules the next step after
  exactly \<^verbatim>\<open>backSpeed\<close>: nothing else changes, for every curvature.
\<close>

theorem C7_backspace_step:
  assumes "strings (options s) \<noteq> []" and "\<not> isDestroyed s" and "\<not> isTyping s"
    and "currentCharIndex s > 0"
    and "index (strings (options s)) (currentStringIndex s) = Some str"
  shows "typeText s =
         Returned (s\<lparr>currentCharIndex := currentCharIndex s - 1,
                     displayText := take (nat (currentCharIndex s - 1)) str,
                     textContent := take (nat (currentCharIndex s - 1)) str,
                     trace := trace s @ [SetText (take (nat (currentCharIndex s - 1)) str)],
                     timeouts := timeouts s @ [(nextHandle s, backSpeed (options s))],
                     nextHandle := nextHandle s + 1,
                     timeoutId := Some (nextHandle s)\<rparr>)"
  using assms
  by (simp add: typeText_def Let_def schedule_eq writeText_def emit_def substring_def)

text \<open>In the scenario "Hi", the step that erases "i": the next step is 50 ms away.\<close>

theorem C7_witness:
  "strings (options erasing_Hi) \<noteq> [] \<and> \<not> isDestroyed erasing_Hi \<and> \<not> isTyping erasing_Hi \<and>
   currentCharIndex erasing_Hi > 0 \<and>
   index (strings (options erasing_Hi)) (currentStringIndex erasing_Hi) = Some ''Hi'' \<and>
   typeText erasing_Hi =
     Returned (erasing_Hi\<lparr>currentCharIndex := 1, displayText := ''H'', textContent := ''H'',
                 trace := trace erasing_Hi @ [SetText ''H''], timeouts := [(5, 50)],
                 nextHandle := 6, timeoutId := Some 5\<rparr>)"
proof -
  have pre: "strings (options erasing_Hi) \<noteq> []" "\<not> isDestroyed erasing_Hi"
    "\<not> isTyping erasing_Hi" "currentCharIndex erasing_Hi > 0"
    "index (strings (options erasing_Hi)) (currentStringIndex erasing_Hi) = Some ''Hi''"
    by (simp_all add: erasing_Hi_def eval_defs steps_numeral)
  have vals: "currentCharIndex erasing_Hi = 2" "backSpeed (options erasing_Hi) = 50"
    "nextHandle erasing_Hi = 5" "timeouts erasing_Hi = []"
    by (simp_all add: erasing_Hi_def eval_defs steps_numeral)
  from C7_backspace_step [OF pre] pre show ?thesis
    by (simp add: vals)
qed

subsection \<open>The character index stays inside the current string\<close>

lemma typeText_keeps_bounds:
  assumes "0 \<le> currentCharIndex s" and "currentCharIndex s \<le> int (length (getCurrentString s))"
  shows "0 \<le> currentCharIndex (after (typeText s)) \<and>
         currentCharIndex (after (typeText s)) \<le> int (length (getCurrentString (after (typeText s))))"
  using assms
  by (auto simp: step_defs getCurrentString_def split: option.splits)

lemma exec_keeps_bounds:
  assumes "keeps_strings c"
    and "0 \<le> currentCharIndex s" and "currentCharIndex s \<le> int (length (getCurrentString s))"
  shows "0 \<le> currentCharIndex (after (exec c s)) \<and>
         currentCharIndex (after (exec c s)) \<le> int (length (getCurrentString (after (exec c s))))"
proof (cases c)
  case (FireTimeout h)
  have "getCurrentString (clearTimeout h s) = getCurrentString s"
    "currentCharIndex (clearTimeout h s) = currentCharIndex s"
    by (simp_all add: clearTimeout_def getCurrentString_def)
  then show ?thesis
    using FireTimeout assms typeText_keeps_bounds [of "clearTimeout h s"] by simp
next
  case (FireInterval h)
  then show ?thesis using assms by (simp add: cursorTick_def Let_def getCurrentString_def)
next
  case Start
  show ?thesis
  proof (cases "isDestroyed s")
    case True
    then show ?thesis using Start assms by (simp add: start_def)
  next
    case False
    let ?r = "s\<lparr>currentStringIndex := 0, currentCharIndex := 0, isTyping := True\<rparr>"
    have "0 \<le> currentCharIndex ?r \<and> currentCharIndex ?r \<le> int (length (getCurrentString ?r))"
      by simp
    then show ?thesis
      using Start False typeText_keeps_bounds [of ?r] by (simp add: start_def)
  qed
next
  case Stop
  then show ?thesis
    using assms getCurrentString_cong [of "stop s" s] by (simp add: stop_fields)
next
  case Destroy
  then show ?thesis
    using assms
    by (simp add: destroy_def stopCursorBlink_def stop_def clearTimeout_def clearInterval_def
        Let_def getCurrentString_def)
next
  case Reset
  then show ?thesis
    using assms
    by (simp add: reset_def Let_def getCurrentString_def stop_fields writeText_def emit_def
        split: option.splits)
next
  case (UpdateOptions new)
  then show ?thesis
    using assms by (simp add: updateOptions_def merge_def getCurrentString_def)
qed

lemma run_keeps_bounds:
  assumes "\<forall>c \<in> set cs. keeps_strings c"
    and "0 \<le> currentCharIndex s" and "currentCharIndex s \<le> int (length (getCurrentString s))"
  shows "0 \<le> currentCharIndex (run cs s) \<and>
         currentCharIndex (run cs s) \<le> int (length (getCurrentString (run cs s)))"
  using assms
proof (induction cs arbitrary: s)
  case Nil
  then show ?case by simp
next
  case (Cons c cs)
  have "keeps_strings c" using Cons.prems(1) by simp
  from exec_keeps_bounds [OF this Cons.prems(2,3)] Cons.IH [of "after (exec c s)"] Cons.prems(1)
  show ?case by simp
qed

lemma constructed_bounds:
  "0 \<le> currentCharIndex (constructed opts) \<and>
   currentCharIndex (constructed opts) \<le> int (length (getCurrentString (constructed opts)))"
proof -
  let ?s5 = "startCursorBlink ((initial_fields (resolve opts))
      \<lparr>elementChildren := [], textContent := [], cursorHidden := False,
       elementChildren := [TextSpan],
       elementChildren := (if showCursor (resolve opts) then [TextSpan, CursorSpan] else [TextSpan])\<rparr>)"
  have b: "0 \<le> currentCharIndex ?s5 \<and> currentCharIndex ?s5 \<le> int (length (getCurrentString ?s5))"
    by (simp add: startCursorBlink_fields initial_fields_def)
  have "constructed opts = after (typeText ?s5) \<or> constructed opts = ?s5 \<or>
      constructed opts = snd (setTimeout (startDelay (resolve opts)) ?s5)"
    by (simp add: constructed_def init_def Let_def initial_fields_def startCursorBlink_fields)
  then show ?thesis
    using b typeText_keeps_bounds [of ?s5]
    by (auto simp: setTimeout_def getCurrentString_def)
qed

text \<open>
  C3, as the claim states it, fails: \<^verbatim>\<open>updateOptions\<close> is a plain merge, so replacing
  \<^verbatim>\<open>strings\<close> leaves the indices where they were. Built with \<^verbatim>\<open>{strings: ["hello"]}\<close>,
  the engine has typed "h" on construction; its timeout (handle 2; handle 1 is the cursor's
  interval) fires and types "he"; then \<^verbatim>\<open>updateOptions({strings: ["a"]})\<close> leaves
  \<^verbatim>\<open>currentCharIndex = 2\<close> over a current string of length 1.
\<close>

theorem C3_counterexample:
  "new_TypedText True config_hello = Inr (constructed config_hello) \<and>
   \<not> (currentCharIndex (run [FireTimeout 2, UpdateOptions strings_a] (constructed config_hello))
        \<le> int (length (getCurrentString
              (run [FireTimeout 2, UpdateOptions strings_a] (constructed config_hello)))))"
  by (simp add: new_TypedText_constructed) (simp add: eval_defs)

text \<open>
  C3, amended. In every state reached from a constructed engine by step callbacks, cursor
  ticks and public operations among which no \<^verbatim>\<open>updateOptions\<close> call carries the key
  \<^verbatim>\<open>strings\<close>, \<^verbatim>\<open>0 <= currentCharIndex <= getCurrentString().length\<close>, where
  \<^verbatim>\<open>getCurrentString()\<close> is \<^verbatim>\<open>strings[currentStringIndex]\<close>, or \<^verbatim>\<open>''\<close> when that index is
  outside the array (as it is once a run without loop has completed).
\<close>

theorem C3_char_index_within_current_string:
  assumes "new_TypedText found opts = Inr s" and "\<forall>c \<in> set cs. keeps_strings c"
  shows "0 \<le> currentCharIndex (run cs s) \<and>
         currentCharIndex (run cs s) \<le> int (length (getCurrentString (run cs s)))"
proof -
  have "found" using assms(1) by (cases found) (simp_all add: new_TypedText_def)
  then have "s = constructed opts" using assms(1) by (simp add: new_TypedText_constructed)
  then show ?thesis using run_keeps_bounds [OF assms(2)] constructed_bounds by simp
qed

theorem C3_witness:
  "new_TypedText True config_hello = Inr (constructed config_hello) \<and>
   list_all keeps_strings [FireTimeout 2, Start, FireTimeout 3, UpdateOptions no_keys, Stop] \<and>
   0 \<le> currentCharIndex
         (run [FireTimeout 2, Start, FireTimeout 3, UpdateOptions no_keys, Stop]
            (constructed config_hello)) \<and>
   currentCharIndex
     (run [FireTimeout 2, Start, FireTimeout 3, UpdateOptions no_keys, Stop]
        (constructed config_hello))
   \<le> int (length (getCurrentString
         (run [FireTimeout 2, Start, FireTimeout 3, UpdateOptions no_keys, Stop]
            (constructed config_hello))))"
proof -
  have c: "new_TypedText True config_hello = Inr (constructed config_hello)"
    by (rule new_TypedText_constructed)
  have k: "\<forall>c \<in> set [FireTimeout 2, Start, FireTimeout 3, UpdateOptions no_keys, Stop].
      keeps_strings c"
    by (simp add: no_keys_def)
  from C3_char_index_within_current_string [OF c k] c show ?thesis
    by (simp add: no_keys_def)
qed

subsection \<open>The speed curve stays between 0 and 1\<close>

lemma getSpeedMultiplier_bounds:
  assumes "0 \<le> p" and "p \<le> 1"
  shows "0 \<le> getSpeedMultiplier p c \<and> getSpeedMultiplier p c \<le> 1"
proof (cases c)
  case Linear
  then show ?thesis by simp
next
  case Bezier
  show ?thesis
  proof (cases "p < 0.5")
    case True
    have "p * p \<le> (1/2) * (1/2)" using assms True by (intro mult_mono) auto
    then have "p * p * p \<le> (1/2) * (1/2) * (1/2)" using assms True by (intro mult_mono) auto
    moreover have "0 \<le> p * p * p" using assms by simp
    ultimately show ?thesis using Bezier True by simp
  next
    case False
    define q where "q = -2 * p + 2"
    have q: "0 \<le> q" "q \<le> 1" using assms False by (simp_all add: q_def)
    have "0 \<le> q ^ 3" "q ^ 3 \<le> 1" using q by (simp_all add: power_le_one)
    then show ?thesis using Bezier False by (simp add: q_def)
  qed
next
  case Exponential
  then show ?thesis using assms by (simp add: power_le_one)
next
  case Sine
  have "0 \<le> sin (p * pi - pi / 2) + 1"
    using sin_ge_minus_one [of "p * pi - pi / 2"] by linarith
  moreover have "sin (p * pi - pi / 2) + 1 \<le> 2"
    using sin_le_one [of "p * pi - pi / 2"] by linarith
  ultimately show ?thesis using Sine by simp
qed

lemma delay_bounds:
  fixes t m :: real
  assumes "0 \<le> t" and "0 \<le> m" and "m \<le> 1"
  shows "t \<le> t * (3 - 2 * m) \<and> t * (3 - 2 * m) \<le> 3 * t"
proof -
  have "t * 1 \<le> t * (3 - 2 * m)" using assms by (intro mult_left_mono) auto
  moreover have "t * (3 - 2 * m) \<le> t * 3" using assms by (intro mult_left_mono) auto
  ultimately show ?thesis by simp
qed

lemma getCurrentTypeSpeed_curve:
  assumes "typeSpeedCurvature (options s) \<noteq> Linear" and "getCurrentString s \<noteq> []"
  shows "getCurrentTypeSpeed s =
         typeSpeed (options s) *
           (3 - 2 * getSpeedMultiplier
                      (real_of_int (currentCharIndex s) / real (length (getCurrentString s)))
                      (typeSpeedCurvature (options s)))"
  using assms
  by (simp add: getCurrentTypeSpeed_def getCurrentString_def Let_def split: option.splits)

lemma getCurrentTypeSpeed_bounds:
  assumes "0 \<le> typeSpeed (options s)" and "0 \<le> currentCharIndex s"
    and "currentCharIndex s \<le> int (length (getCurrentString s))"
  shows "typeSpeed (options s) \<le> getCurrentTypeSpeed s \<and>
         getCurrentTypeSpeed s \<le> 3 * typeSpeed (options s)"
proof (cases "typeSpeedCurvature (options s) = Linear \<or> getCurrentString s = []")
  case True
  then have "getCurrentTypeSpeed s = typeSpeed (options s)"
    by (auto simp: getCurrentTypeSpeed_def getCurrentString_def split: option.splits)
  then show ?thesis using assms by simp
next
  case False
  let ?p = "real_of_int (currentCharIndex s) / real (length (getCurrentString s))"
  have len: "0 < real (length (getCurrentString s))" using False by simp
  have "0 \<le> ?p" using assms len by simp
  moreover have "?p \<le> 1" using assms(3) len by (simp add: divide_le_eq_1)
  ultimately have "0 \<le> getSpeedMultiplier ?p (typeSpeedCurvature (options s)) \<and>
      getSpeedMultiplier ?p (typeSpeedCurvature (options s)) \<le> 1"
    by (rule getSpeedMultiplier_bounds)
  then show ?thesis
    using delay_bounds [OF assms(1)] getCurrentTypeSpeed_curve [of s] False by simp
qed

text \<open>
  C5. Over the reals: for every curvature and every progress \<open>p\<close> with \<open>0 \<le> p \<le> 1\<close> (the
  claim's \<open>[0,1)\<close>, and \<open>p = 1\<close>, which the step reaches because it increments
  \<^verbatim>\<open>currentCharIndex\<close> before it asks for the speed) the multiplier lies in \<open>[0,1]\<close>. For a
  non-linear curvature over a non-empty current string the delay is
  \<^verbatim>\<open>typeSpeed * (3 - 2 * multiplier)\<close> at \<open>p = currentCharIndex / length\<close>, and whenever
  \<^verbatim>\<open>typeSpeed >= 0\<close> and \<^verbatim>\<open>currentCharIndex\<close> lies within the current string, the delay
  lies in \<open>[typeSpeed, 3 * typeSpeed]\<close>.
\<close>

theorem C5_multiplier_and_delay_bounds:
  "(0 \<le> p \<and> p \<le> 1 \<longrightarrow> 0 \<le> getSpeedMultiplier p c \<and> getSpeedMultiplier p c \<le> 1) \<and>
   (typeSpeedCurvature (options s) \<noteq> Linear \<and> getCurrentString s \<noteq> [] \<longrightarrow>
      getCurrentTypeSpeed s =
        typeSpeed (options s) *
          (3 - 2 * getSpeedMultiplier
                     (real_of_int (currentCharIndex s) / real (length (getCurrentString s)))
                     (typeSpeedCurvature (options s)))) \<and>
   (0 \<le> typeSpeed (options s) \<and> 0 \<le> currentCharIndex s \<and>
    currentCharIndex s \<le> int (length (getCurrentString s)) \<longrightarrow>
      typeSpeed (options s) \<le> getCurrentTypeSpeed s \<and>
      getCurrentTypeSpeed s \<le> 3 * typeSpeed (options s))"
  using getSpeedMultiplier_bounds [of p c] getCurrentTypeSpeed_curve [of s]
    getCurrentTypeSpeed_bounds [of s]
  by blast

text \<open>
  At \<^verbatim>\<open>{strings: ["ab"]}\<close> (curvature sine, typeSpeed 50) with one character typed:
  progress 1/2, multiplier 1/2, delay 100.
\<close>

theorem C5_witness:
  "(0::real) \<le> 1/2 \<and> (1/2::real) \<le> 1 \<and>
   0 \<le> getSpeedMultiplier (1/2) Sine \<and> getSpeedMultiplier (1/2) Sine \<le> 1 \<and>
   typeSpeedCurvature (options (constructed config_ab)) \<noteq> Linear \<and>
   getCurrentString (constructed config_ab) \<noteq> [] \<and>
   0 \<le> typeSpeed (options (constructed config_ab)) \<and>
   0 \<le> currentCharIndex (constructed config_ab) \<and>
   currentCharIndex (constructed config_ab) \<le> int (length (getCurrentString (constructed config_ab))) \<and>
   getCurrentTypeSpeed (constructed config_ab) =
     50 * (3 - 2 * getSpeedMultiplier (1/2) Sine) \<and>
   typeSpeed (options (constructed config_ab)) \<le> getCurrentTypeSpeed (constructed config_ab) \<and>
   getCurrentTypeSpeed (constructed config_ab) \<le> 3 * typeSpeed (options (constructed config_ab))"
proof -
  have o: "options (constructed config_ab) = resolve config_ab"
    "currentCharIndex (constructed config_ab) = 1"
    "currentStringIndex (constructed config_ab) = 0"
    by (simp_all add: eval_defs)
  have r: "strings (resolve config_ab) = [''ab'']" "typeSpeed (resolve config_ab) = 50"
    "typeSpeedCurvature (resolve config_ab) = Sine"
    by (simp_all add: resolve_def config_ab_def only_strings_def)
  have g: "getCurrentString (constructed config_ab) = ''ab''"
    by (simp add: getCurrentString_def index_def o r)
  from C5_multiplier_and_delay_bounds [of "1/2" Sine "constructed config_ab"] show ?thesis
    by (simp add: o r g)
qed

subsection \<open>An empty string is skipped\<close>

lemma clearTimeout_fresh:
  assumes "fresh_handles s"
  shows "filter (\<lambda>t. fst t \<noteq> nextHandle s) (timeouts s @ [(nextHandle s, d)]) = timeouts s"
proof -
  have "\<forall>t \<in> set (timeouts s). fst t \<noteq> nextHandle s"
    using assms by (auto simp: fresh_handles_def)
  then show ?thesis by (simp add: filter_id_conv)
qed

text \<open>
  C10. On an engine that is alive, in the typing phase with \<^verbatim>\<open>currentCharIndex = 0\<close> and
  whose current string \<^verbatim>\<open>strings[i]\<close> is empty, one step calls \<^verbatim>\<open>onStringStart(i)\<close> and
  \<^verbatim>\<open>onStringComplete(i)\<close>, writes no text, switches to backspacing and schedules the next
  step after \<^verbatim>\<open>backDelay\<close>; nothing else changes. When that timeout fires, the step
  either calls \<^verbatim>\<open>onComplete\<close> and schedules nothing (last string, no loop), or moves to
  string \<open>i + 1\<close> (to 0 when it wraps), back in the typing phase, with the next step 500
  ms away. No step throws.
\<close>

theorem C10_empty_string_skipped:
  assumes "strings (options s) \<noteq> []" and "\<not> isDestroyed s" and "isTyping s"
    and "currentCharIndex s = 0"
    and "index (strings (options s)) (currentStringIndex s) = Some []"
    and "fresh_handles s"
  shows
    "(let i = currentStringIndex s;
          h = nextHandle s;
          s1 = s\<lparr>isTyping := False,
                 trace := trace s @ [OnStringStart i, OnStringComplete i],
                 timeouts := timeouts s @ [(h, backDelay (options s))],
                 nextHandle := h + 1,
                 timeoutId := Some h\<rparr>
      in typeText s = Returned s1 \<and>
         exec (FireTimeout h) s1 =
           Returned
             (if i + 1 \<ge> int (length (strings (options s))) \<and> \<not> loop (options s)
              then s1\<lparr>timeouts := timeouts s,
                      currentStringIndex := i + 1,
                      trace := trace s1 @ [OnComplete]\<rparr>
              else s1\<lparr>currentStringIndex :=
                        (if i + 1 \<ge> int (length (strings (options s))) then 0 else i + 1),
                      isTyping := True,
                      timeouts := timeouts s @ [(h + 1, 500)],
                      nextHandle := h + 2,
                      timeoutId := Some (h + 1)\<rparr>))"
  using assms clearTimeout_fresh [OF assms(6)]
  by (simp add: step_defs clearTimeout_def)

text \<open>
  With \<^verbatim>\<open>{strings: ["", "b"]}\<close>, after \<^verbatim>\<open>reset()\<close>: the step on the empty string, then the
  step that moves to string 1.
\<close>

theorem C10_witness:
  "strings (options before_empty) \<noteq> [] \<and> \<not> isDestroyed before_empty \<and>
   isTyping before_empty \<and> currentCharIndex before_empty = 0 \<and>
   index (strings (options before_empty)) (currentStringIndex before_empty) = Some [] \<and>
   fresh_handles before_empty \<and>
   typeText before_empty =
     Returned (before_empty\<lparr>isTyping := False,
                 trace := trace before_empty @ [OnStringStart 0, OnStringComplete 0],
                 timeouts := [(3, 1000)], nextHandle := 4, timeoutId := Some 3\<rparr>) \<and>
   exec (FireTimeout 3) (after (typeText before_empty)) =
     Returned (before_empty\<lparr>currentStringIndex := 1,
                 trace := trace before_empty @ [OnStringStart 0, OnStringComplete 0],
                 timeouts := [(4, 500)], nextHandle := 5, timeoutId := Some 4\<rparr>)"
proof -
  have pre: "strings (options before_empty) \<noteq> []" "\<not> isDestroyed before_empty"
    "isTyping before_empty" "currentCharIndex before_empty = 0"
    "index (strings (options before_empty)) (currentStringIndex before_empty) = Some []"
    "fresh_handles before_empty"
    by (simp_all add: before_empty_def fresh_handles_def eval_defs)
  have vals: "currentStringIndex before_empty = 0" "nextHandle before_empty = 3"
    "timeouts before_empty = []" "strings (options before_empty) = [[], ''b'']"
    "backDelay (options before_empty) = 1000" "\<not> loop (options before_empty)"
    by (simp_all add: before_empty_def eval_defs)
  from C10_empty_string_skipped [OF pre] pre show ?thesis
    by (simp add: Let_def vals)
qed

subsection \<open>Runs in progress\<close>

lemma steps_add: "steps (m + n) s = steps n (steps m s)"
  by (induction m arbitrary: s) simp_all

lemma remaining_pos: "0 < remaining s"
  by (simp add: remaining_def)

text \<open>The step of a run in progress is the step function on an emptied queue.\<close>

lemma running_step:
  assumes "running s"
  shows "step s = after (typeText (s\<lparr>timeouts := []\<rparr>))"
proof -
  from assms obtain h d where "timeoutId s = Some h" "timeouts s = [(h, d)]"
    by (auto simp: running_def)
  then show ?thesis by (simp add: step_def clearTimeout_def)
qed

text \<open>Unless the last string has just been erased with loop off, the run stays in progress.\<close>

lemma step_keeps_running:
  assumes "running s" and "loop (options s) \<or> \<not> erased_last s"
  shows "running (step s) \<and> options (step s) = options s"
proof -
  from assms(1) obtain h d where hd: "timeoutId s = Some h" "timeouts s = [(h, d)]"
    by (auto simp: running_def)
  have b: "0 \<le> currentCharIndex s" "currentCharIndex s \<le> int (length (getCurrentString s))"
    using assms(1) by (simp_all add: running_def)
  have "step s = after (exec (FireTimeout h) s)" using hd by (simp add: step_def)
  then have b': "0 \<le> currentCharIndex (step s) \<and>
      currentCharIndex (step s) \<le> int (length (getCurrentString (step s)))"
    using exec_keeps_bounds [of "FireTimeout h" s] b by simp
  have "options (step s) = options s \<and> strings (options (step s)) \<noteq> [] \<and>
      \<not> isDestroyed (step s) \<and> 0 \<le> currentStringIndex (step s) \<and>
      currentStringIndex (step s) < int (length (strings (options (step s)))) \<and>
      (\<exists>h' d'. timeoutId (step s) = Some h' \<and> timeouts (step s) = [(h', d')]) \<and>
      OnComplete \<notin> set (trace (step s))"
    using assms
    by (auto simp: running_step running_def erased_last_def step_defs index_def
        split: option.splits)
  then show ?thesis using b' by (auto simp: running_def)
qed

lemma step_keeps_looping: "looping s \<Longrightarrow> looping (step s)"
  using step_keeps_running [of s] by (simp add: looping_def)

lemma steps_keep_looping: "looping s \<Longrightarrow> looping (steps n s)"
  by (induction n arbitrary: s) (simp_all add: step_keeps_looping)

text \<open>The two steps that end a pass over the strings.\<close>

lemma wrapping_step:
  assumes "strings (options s) \<noteq> []" and "\<not> isDestroyed s" and "loop (options s)"
    and "erased_last s"
  shows "typeText s =
         Returned (s\<lparr>currentStringIndex := 0, isTyping := True,
                     timeouts := timeouts s @ [(nextHandle s, 500)],
                     nextHandle := nextHandle s + 1,
                     timeoutId := Some (nextHandle s)\<rparr>)"
  using assms by (simp add: erased_last_def step_defs)

lemma completing_step:
  assumes "strings (options s) \<noteq> []" and "\<not> isDestroyed s" and "\<not> loop (options s)"
    and "erased_last s"
  shows "typeText s =
         Returned (s\<lparr>currentStringIndex := currentStringIndex s + 1,
                     trace := trace s @ [OnComplete]\<rparr>)"
  using assms by (simp add: erased_last_def step_defs)

text \<open>
  Every step of a run in progress brings the end of the pass one step closer; the pass
  has one step left exactly when the last string has been erased.
\<close>

lemma step_remaining:
  assumes "running s"
  shows "(erased_last s \<longrightarrow> remaining s = 1) \<and>
         (\<not> erased_last s \<longrightarrow> Suc (remaining (step s)) = remaining s)"
proof -
  let ?strs = "strings (options s)"
  let ?i = "nat (currentStringIndex s)"
  let ?S = "sum_list (map (\<lambda>str. 2 * length str + 2) (drop (Suc ?i) ?strs))"
  let ?L = "length (?strs ! ?i)"
  let ?c = "nat (currentCharIndex s)"
  have r: "?strs \<noteq> []" "\<not> isDestroyed s" "0 \<le> currentStringIndex s"
    "currentStringIndex s < int (length ?strs)" "0 \<le> currentCharIndex s"
    "currentCharIndex s \<le> int (length (getCurrentString s))"
    using assms by (simp_all add: running_def)
  have i: "?i < length ?strs" "int ?i = currentStringIndex s" using r(3,4) by simp_all
  have cur: "index ?strs (currentStringIndex s) = Some (?strs ! ?i)"
    using r(3,4) by (simp add: index_def)
  have g: "getCurrentString s = ?strs ! ?i" using cur by (simp add: getCurrentString_def)
  note st = running_step [OF assms]
  have a: "currentCharIndex s < int (length (?strs ! ?i)) \<or>
      currentCharIndex s = int (length (?strs ! ?i))"
    using r(6) unfolding g by linarith
  have b: "currentCharIndex s > 0 \<or> currentCharIndex s = 0" using r(5) by linarith
  have c: "Suc ?i < length ?strs \<or> Suc ?i = length ?strs" using i(1) by linarith
  consider (type) "isTyping s" "currentCharIndex s < int (length (?strs ! ?i))"
    | (typed) "isTyping s" "currentCharIndex s = int (length (?strs ! ?i))"
    | (erase) "\<not> isTyping s" "currentCharIndex s > 0"
    | (advance) "\<not> isTyping s" "currentCharIndex s = 0" "Suc ?i < length ?strs"
    | (last) "\<not> isTyping s" "currentCharIndex s = 0" "Suc ?i = length ?strs"
    using a b c by blast
  then show ?thesis
  proof cases
    case type
    have f: "isTyping (step s)" "currentCharIndex (step s) = currentCharIndex s + 1"
      "currentStringIndex (step s) = currentStringIndex s" "options (step s) = options s"
      using type r(1,2) cur by (auto simp: st step_defs)
    have lt: "?c < ?L" using type(2) r(5) by linarith
    have r0: "remaining s = (?L - ?c) + 1 + ?L + 1 + ?S"
      using type(1) by (simp add: remaining_def g)
    have r1: "remaining (step s) = (?L - Suc ?c) + 1 + ?L + 1 + ?S"
      using r(5) cur by (simp add: remaining_def getCurrentString_def f nat_add_distrib)
    have "\<not> erased_last s" using type(1) by (simp add: erased_last_def)
    moreover have "Suc (remaining (step s)) = remaining s" unfolding r0 r1 using lt by arith
    ultimately show ?thesis by simp
  next
    case typed
    have f: "\<not> isTyping (step s)" "currentCharIndex (step s) = currentCharIndex s"
      "currentStringIndex (step s) = currentStringIndex s" "options (step s) = options s"
      using typed r(1,2) cur by (auto simp: st step_defs)
    have eq: "?c = ?L" using typed(2) by simp
    have r0: "remaining s = (?L - ?c) + 1 + ?L + 1 + ?S"
      using typed(1) by (simp add: remaining_def g)
    have r1: "remaining (step s) = ?c + 1 + ?S"
      by (simp add: remaining_def f)
    have "\<not> erased_last s" using typed(1) by (simp add: erased_last_def)
    moreover have "Suc (remaining (step s)) = remaining s" unfolding r0 r1 using eq by arith
    ultimately show ?thesis by simp
  next
    case erase
    have f: "\<not> isTyping (step s)" "currentCharIndex (step s) = currentCharIndex s - 1"
      "currentStringIndex (step s) = currentStringIndex s" "options (step s) = options s"
      using erase r(1,2) cur by (auto simp: st step_defs)
    have pos: "0 < ?c" using erase(2) by linarith
    have r0: "remaining s = ?c + 1 + ?S"
      using erase(1) by (simp add: remaining_def)
    have r1: "remaining (step s) = (?c - 1) + 1 + ?S"
      using pos by (simp add: remaining_def f nat_diff_distrib)
    have "\<not> erased_last s" using erase(2) by (simp add: erased_last_def)
    moreover have "Suc (remaining (step s)) = remaining s" unfolding r0 r1 using pos by arith
    ultimately show ?thesis by simp
  next
    case advance
    have lt: "currentStringIndex s + 1 < int (length ?strs)" using advance(3) i by linarith
    have f: "isTyping (step s)" "currentCharIndex (step s) = 0"
      "currentStringIndex (step s) = currentStringIndex s + 1" "options (step s) = options s"
      using advance r(1,2) lt by (auto simp: st step_defs)
    have d: "drop (Suc ?i) ?strs = ?strs ! Suc ?i # drop (Suc (Suc ?i)) ?strs"
      using advance(3) by (simp add: Cons_nth_drop_Suc)
    have n: "nat (currentStringIndex s + 1) = Suc ?i" using r(3) by (simp add: nat_add_distrib)
    have idx: "index ?strs (currentStringIndex s + 1) = Some (?strs ! Suc ?i)"
      using lt r(3) n by (simp add: index_def)
    have r0: "remaining s = 1 + ?S"
      using advance(1,2) by (simp add: remaining_def)
    have r1: "Suc (remaining (step s)) = 1 + ?S"
      by (simp add: remaining_def getCurrentString_def f d n idx)
    have "\<not> erased_last s" using lt by (simp add: erased_last_def)
    moreover have "Suc (remaining (step s)) = remaining s" unfolding r0 using r1 by simp
    ultimately show ?thesis by simp
  next
    case last
    have ge: "int (length ?strs) \<le> currentStringIndex s + 1" using last(3) i by linarith
    have d: "drop (Suc ?i) ?strs = []" using last(3) by simp
    have "erased_last s" using last(1,2) ge by (simp add: erased_last_def)
    moreover have "remaining s = 1" using last(1,2) by (simp add: remaining_def d)
    ultimately show ?thesis by simp
  qed
qed

lemma remaining_1_erased_last:
  assumes "running s" and "remaining s = 1"
  shows "erased_last s"
proof (rule ccontr)
  assume "\<not> erased_last s"
  then have "Suc (remaining (step s)) = 1" using step_remaining [OF assms(1)] assms(2) by simp
  then show False using remaining_pos [of "step s"] by simp
qed

lemma looping_reaches_start:
  assumes "looping s" and "remaining s = Suc k"
  shows "at_start (steps (Suc k) s)"
  using assms
proof (induction k arbitrary: s)
  case 0
  then have r: "running s" "loop (options s)" by (simp_all add: looping_def)
  have e: "erased_last (s\<lparr>timeouts := []\<rparr>)"
    using remaining_1_erased_last [OF r(1)] 0(2) by (simp add: erased_last_def)
  have "strings (options (s\<lparr>timeouts := []\<rparr>)) \<noteq> []" "\<not> isDestroyed (s\<lparr>timeouts := []\<rparr>)"
    "loop (options (s\<lparr>timeouts := []\<rparr>))"
    using r by (simp_all add: running_def)
  moreover have "currentCharIndex s = 0"
    using e r(1) by (simp add: erased_last_def running_def)
  ultimately show ?case
    using wrapping_step [OF _ _ _ e] by (simp add: running_step [OF r(1)] at_start_def)
next
  case (Suc k)
  then have r: "running s" "loop (options s)" by (simp_all add: looping_def)
  have "\<not> erased_last s" using step_remaining [OF r(1)] Suc.prems(2) by auto
  then have "remaining (step s) = Suc k"
    using step_remaining [OF r(1)] Suc.prems(2) by simp
  from Suc.IH [OF step_keeps_looping [OF Suc.prems(1)] this] show ?case by simp
qed

lemma looping_recurs:
  assumes "looping s"
  shows "\<exists>m>n. at_start (steps m s)"
proof -
  have l: "looping (steps n s)" using assms by (rule steps_keep_looping)
  obtain k where k: "remaining (steps n s) = Suc k"
    using remaining_pos [of "steps n s"] by (cases "remaining (steps n s)") simp_all
  from looping_reaches_start [OF l k] have "at_start (steps (n + Suc k) s)"
    by (simp only: steps_add)
  then show ?thesis by (intro exI [of _ "n + Suc k"]) simp
qed

text \<open>
  Without loop, a run in progress that has \<open>k + 1\<close> steps left is still in progress after
  \<open>k\<close> steps, and its next step completes it: \<^verbatim>\<open>onComplete\<close> is called, nothing is
  scheduled, and \<^verbatim>\<open>timeoutId\<close> keeps the handle of the timeout that fired.
\<close>

lemma run_completes:
  assumes "running s" and "\<not> loop (options s)" and "remaining s = Suc k"
  shows "running (steps k s) \<and>
         steps (Suc k) s =
           (steps k s)\<lparr>timeouts := [],
                       currentStringIndex := currentStringIndex (steps k s) + 1,
                       trace := trace (steps k s) @ [OnComplete]\<rparr>"
  using assms
proof (induction k arbitrary: s)
  case 0
  have e: "erased_last (s\<lparr>timeouts := []\<rparr>)"
    using remaining_1_erased_last [OF 0(1)] 0(3) by (simp add: erased_last_def)
  have "strings (options (s\<lparr>timeouts := []\<rparr>)) \<noteq> []" "\<not> isDestroyed (s\<lparr>timeouts := []\<rparr>)"
    "\<not> loop (options (s\<lparr>timeouts := []\<rparr>))"
    using 0(1,2) by (simp_all add: running_def)
  from completing_step [OF this e] 0(1) show ?case
    by (simp add: running_step [OF 0(1)])
next
  case (Suc k)
  have ne: "\<not> erased_last s" using step_remaining [OF Suc.prems(1)] Suc.prems(3) by auto
  then have r: "remaining (step s) = Suc k"
    using step_remaining [OF Suc.prems(1)] Suc.prems(3) by simp
  from step_keeps_running [OF Suc.prems(1)] ne Suc.prems(2)
  have "running (step s)" "\<not> loop (options (step s))" by simp_all
  from Suc.IH [OF this r] show ?case by simp
qed

lemma completed_run:
  assumes "running s" and "\<not> loop (options s)"
  shows "timeouts (steps (remaining s) s) = [] \<and>
         isRunning (steps (remaining s) s) \<and>
         count_list (trace (steps (remaining s) s)) OnComplete = 1 \<and>
         step (steps (remaining s) s) = steps (remaining s) s"
proof -
  obtain k where k: "remaining s = Suc k"
    using remaining_pos [of s] by (cases "remaining s") simp_all
  from run_completes [OF assms k] have
    r: "running (steps k s)" and
    e: "steps (remaining s) s =
      (steps k s)\<lparr>timeouts := [],
                  currentStringIndex := currentStringIndex (steps k s) + 1,
                  trace := trace (steps k s) @ [OnComplete]\<rparr>"
    by (simp_all add: k)
  from r obtain h where h: "timeoutId (steps k s) = Some h" by (auto simp: running_def)
  have n: "count_list (trace (steps k s)) OnComplete = 0"
    using r by (simp add: running_def)
  show ?thesis
    unfolding e using h n by (simp add: isRunning_def step_def)
qed

text \<open>An engine built with some string and no start delay is a run in progress.\<close>

lemma constructed_is_running:
  assumes "strings_arg opts \<noteq> []" and "\<not> startDelay (resolve opts) > 0"
  shows "running (constructed opts) \<and> options (constructed opts) = resolve opts"
proof -
  have o: "options (constructed opts) = resolve opts"
    by (simp add: constructed_def init_def Let_def initial_fields_def startCursorBlink_fields
        typeText_options setTimeout_def)
  have s: "strings (resolve opts) = strings_arg opts" by (simp add: resolve_def)
  have "\<not> isDestroyed (constructed opts) \<and> currentStringIndex (constructed opts) = 0 \<and>
    (\<exists>h d. timeoutId (constructed opts) = Some h \<and> timeouts (constructed opts) = [(h, d)]) \<and>
    OnComplete \<notin> set (trace (constructed opts))"
    using assms
    by (auto simp: constructed_def init_def initial_fields_def startCursorBlink_def
        setInterval_def step_defs index_def resolve_def split: option.splits)
  then show ?thesis
    using constructed_bounds [of opts] assms(1) o s by (auto simp: running_def)
qed

text \<open>
  With a start delay the constructor queues the first step and forgets its handle; once
  that timeout has fired, the run is in progress.
\<close>

lemma constructed_delayed:
  assumes "strings_arg opts \<noteq> []" and "startDelay (resolve opts) > 0"
  shows "\<exists>h. timeouts (constructed opts) = [(h, startDelay (resolve opts))] \<and>
             timeoutId (constructed opts) = None \<and>
             stop (constructed opts) = constructed opts \<and>
             running (after (exec (FireTimeout h) (constructed opts))) \<and>
             options (after (exec (FireTimeout h) (constructed opts))) = resolve opts"
proof -
  let ?s5 = "startCursorBlink ((initial_fields (resolve opts))
      \<lparr>elementChildren := [], textContent := [], cursorHidden := False,
       elementChildren := [TextSpan],
       elementChildren := (if showCursor (resolve opts) then [TextSpan, CursorSpan] else [TextSpan])\<rparr>)"
  let ?h = "nextHandle ?s5"
  have s: "strings (resolve opts) = strings_arg opts" by (simp add: resolve_def)
  have c: "constructed opts =
      ?s5\<lparr>timeouts := [(?h, startDelay (resolve opts))], nextHandle := ?h + 1\<rparr>"
    using assms
    by (simp add: constructed_def init_def Let_def initial_fields_def startCursorBlink_fields
        setTimeout_def s startCursorBlink_def setInterval_def)
  have f: "timeoutId ?s5 = None" "options ?s5 = resolve opts" "\<not> isDestroyed ?s5"
    "currentStringIndex ?s5 = 0" "currentCharIndex ?s5 = 0" "isTyping ?s5" "trace ?s5 = []"
    by (simp_all add: startCursorBlink_def setInterval_def initial_fields_def)
  let ?t = "after (exec (FireTimeout ?h) (constructed opts))"
  let ?u = "clearTimeout ?h (constructed opts)"
  have t: "?t = after (typeText ?u)" by (simp add: c)
  have u: "timeoutId ?u = None" "options ?u = resolve opts" "\<not> isDestroyed ?u"
    "currentStringIndex ?u = 0" "currentCharIndex ?u = 0" "isTyping ?u" "trace ?u = []"
    "timeouts ?u = []"
    using f by (simp_all add: c clearTimeout_def)
  obtain str strs where "strings_arg opts = str # strs"
    using assms(1) by (cases "strings_arg opts") auto
  then have strs: "strings (resolve opts) = str # strs" using s by simp
  have r: "options ?t = resolve opts \<and> \<not> isDestroyed ?t \<and> currentStringIndex ?t = 0 \<and>
      (\<exists>h' d'. timeoutId ?t = Some h' \<and> timeouts ?t = [(h', d')]) \<and>
      OnComplete \<notin> set (trace ?t)"
    unfolding t using u strs by (auto simp: step_defs index_def)
  have "0 \<le> currentCharIndex ?u" "currentCharIndex ?u \<le> int (length (getCurrentString ?u))"
    using u by simp_all
  then have b: "0 \<le> currentCharIndex ?t \<and> currentCharIndex ?t \<le> int (length (getCurrentString ?t))"
    unfolding t by (rule typeText_keeps_bounds)
  have "running ?t" using r b strs by (auto simp: running_def)
  moreover have "stop (constructed opts) = constructed opts"
    using f(1) by (simp add: c stop_def truthy_def)
  ultimately show ?thesis using c f(1) r by (intro exI [of _ ?h]) simp
qed

text \<open>
  So every engine built without loop, with some string and no start delay, and then left
  alone, completes: \<^verbatim>\<open>onComplete\<close> has been called exactly once, no timeout is pending
  and no further step happens, yet \<^verbatim>\<open>isRunning()\<close> is true.
\<close>

lemma run_without_loop_completes:
  assumes "strings_arg opts \<noteq> []" and "\<not> startDelay (resolve opts) > 0"
    and "\<not> loop (resolve opts)"
  shows "\<exists>n. timeouts (steps n (constructed opts)) = [] \<and>
             count_list (trace (steps n (constructed opts))) OnComplete = 1 \<and>
             isRunning (steps n (constructed opts)) \<and>
             step (steps n (constructed opts)) = steps n (constructed opts)"
proof -
  from constructed_is_running [OF assms(1,2)] assms(3)
  have "running (constructed opts)" "\<not> loop (options (constructed opts))" by simp_all
  from completed_run [OF this] show ?thesis by blast
qed

subsection \<open>A looping run wraps and never ends\<close>

text \<open>
  C9. With loop enabled, the step taken when the last string has been erased (backspacing
  phase, \<^verbatim>\<open>currentCharIndex\<close> not above 0, \<^verbatim>\<open>currentStringIndex + 1\<close> at or past the end)
  sets \<^verbatim>\<open>currentStringIndex\<close> to 0 and the phase to typing and schedules the next step 500
  ms away; nothing else changes. An engine built with loop enabled and at least one string
  is a looping run in progress (see \<open>looping\<close>) as it leaves the constructor or, when a
  start delay is configured, once the delayed first step has fired; and such a run goes on
  for ever when nothing but its own timeout fires: after any number of steps it is still a
  looping run (one step pending, \<^verbatim>\<open>isRunning()\<close> true, \<^verbatim>\<open>onComplete\<close> never called),
  and it is again and again about to type string 0 from its first character.
\<close>

theorem C9_loop_wraps_and_repeats:
  "(strings (options s) \<noteq> [] \<and> \<not> isDestroyed s \<and> loop (options s) \<and> \<not> isTyping s \<and>
    \<not> currentCharIndex s > 0 \<and>
    currentStringIndex s + 1 \<ge> int (length (strings (options s))) \<longrightarrow>
      typeText s =
        Returned (s\<lparr>currentStringIndex := 0, isTyping := True,
                    timeouts := timeouts s @ [(nextHandle s, 500)],
                    nextHandle := nextHandle s + 1,
                    timeoutId := Some (nextHandle s)\<rparr>)) \<and>
   (strings_arg opts \<noteq> [] \<and> loop_key opts = Some True \<longrightarrow>
      (if startDelay (resolve opts) > 0
       then \<exists>h. timeouts (constructed opts) = [(h, startDelay (resolve opts))] \<and>
                looping (after (exec (FireTimeout h) (constructed opts)))
       else looping (constructed opts))) \<and>
   (looping t \<longrightarrow>
      (\<forall>n. looping (steps n t) \<and> isRunning (steps n t) \<and>
           OnComplete \<notin> set (trace (steps n t)) \<and>
           (\<exists>m>n. currentStringIndex (steps m t) = 0 \<and> currentCharIndex (steps m t) = 0 \<and>
                   isTyping (steps m t))))"
proof -
  have wrap: "typeText s =
        Returned (s\<lparr>currentStringIndex := 0, isTyping := True,
                    timeouts := timeouts s @ [(nextHandle s, 500)],
                    nextHandle := nextHandle s + 1,
                    timeoutId := Some (nextHandle s)\<rparr>)"
    if "strings (options s) \<noteq> []" "\<not> isDestroyed s" "loop (options s)" "\<not> isTyping s"
      "\<not> currentCharIndex s > 0" "currentStringIndex s + 1 \<ge> int (length (strings (options s)))"
    using that by (simp add: step_defs)
  have forever: "looping (steps n t) \<and> isRunning (steps n t) \<and>
      OnComplete \<notin> set (trace (steps n t)) \<and>
      (\<exists>m>n. currentStringIndex (steps m t) = 0 \<and> currentCharIndex (steps m t) = 0 \<and>
              isTyping (steps m t))"
    if l: "looping t" for n
  proof -
    have ln: "looping (steps n t)" using l by (rule steps_keep_looping)
    then have "isRunning (steps n t)" "OnComplete \<notin> set (trace (steps n t))"
      by (auto simp: looping_def running_def isRunning_def)
    moreover from looping_recurs [OF l, of n] have
      "\<exists>m>n. currentStringIndex (steps m t) = 0 \<and> currentCharIndex (steps m t) = 0 \<and>
              isTyping (steps m t)"
      by (simp add: at_start_def)
    ultimately show ?thesis using ln by blast
  qed
  have built: "if startDelay (resolve opts) > 0
       then \<exists>h. timeouts (constructed opts) = [(h, startDelay (resolve opts))] \<and>
                looping (after (exec (FireTimeout h) (constructed opts)))
       else looping (constructed opts)"
    if "strings_arg opts \<noteq> []" "loop_key opts = Some True"
  proof -
    have l: "loop (resolve opts)" using that(2) by (simp add: resolve_def)
    show ?thesis
    proof (cases "startDelay (resolve opts) > 0")
      case True
      from constructed_delayed [OF that(1) True] l show ?thesis
        using True by (auto simp: looping_def)
    next
      case False
      from constructed_is_running [OF that(1) False] l show ?thesis
        using False by (simp add: looping_def)
    qed
  qed
  show ?thesis using wrap forever built by blast
qed

text \<open>
  With \<^verbatim>\<open>{strings: ["a", "b"], loop: true}\<close>: the constructed engine is a looping run;
  six steps later "b" has been erased, and the seventh step wraps.
\<close>

lemma config_loop_after_6:
  "currentStringIndex (steps 6 (constructed config_loop)) = 1 \<and>
   currentCharIndex (steps 6 (constructed config_loop)) = 0 \<and>
   \<not> isTyping (steps 6 (constructed config_loop)) \<and>
   \<not> isDestroyed (steps 6 (constructed config_loop)) \<and>
   options (steps 6 (constructed config_loop)) = resolve config_loop \<and>
   nextHandle (steps 6 (constructed config_loop)) = 9 \<and>
   map fst (timeouts (steps 6 (constructed config_loop))) = [8] \<and>
   trace (steps 6 (constructed config_loop)) =
     [OnStringStart 0, SetText ''a'', OnStringComplete 0, SetText [],
      OnStringStart 1, SetText ''b'', OnStringComplete 1, SetText []]"
  by (simp add: eval_defs steps_numeral)

theorem C9_witness:
  "strings (options (steps 6 (constructed config_loop))) \<noteq> [] \<and>
   \<not> isDestroyed (steps 6 (constructed config_loop)) \<and>
   loop (options (steps 6 (constructed config_loop))) \<and>
   \<not> isTyping (steps 6 (constructed config_loop)) \<and>
   \<not> currentCharIndex (steps 6 (constructed config_loop)) > 0 \<and>
   currentStringIndex (steps 6 (constructed config_loop)) + 1
     \<ge> int (length (strings (options (steps 6 (constructed config_loop))))) \<and>
   typeText (steps 6 (constructed config_loop)) =
     Returned ((steps 6 (constructed config_loop))
                 \<lparr>currentStringIndex := 0, isTyping := True,
                  timeouts := timeouts (steps 6 (constructed config_loop)) @ [(9, 500)],
                  nextHandle := 10, timeoutId := Some 9\<rparr>) \<and>
   strings_arg config_loop \<noteq> [] \<and> loop_key config_loop = Some True \<and>
   \<not> startDelay (resolve config_loop) > 0 \<and>
   looping (constructed config_loop) \<and>
   (\<forall>n. looping (steps n (constructed config_loop)) \<and>
        isRunning (steps n (constructed config_loop)) \<and>
        OnComplete \<notin> set (trace (steps n (constructed config_loop))) \<and>
        (\<exists>m>n. currentStringIndex (steps m (constructed config_loop)) = 0 \<and>
                currentCharIndex (steps m (constructed config_loop)) = 0 \<and>
                isTyping (steps m (constructed config_loop))))"
proof -
  note six = config_loop_after_6
  have r: "strings (resolve config_loop) = [''a'', ''b'']" "loop (resolve config_loop)"
    by (simp_all add: resolve_def config_loop_def only_strings_def)
  have pre: "strings (options (steps 6 (constructed config_loop))) \<noteq> [] \<and>
      \<not> isDestroyed (steps 6 (constructed config_loop)) \<and>
      loop (options (steps 6 (constructed config_loop))) \<and>
      \<not> isTyping (steps 6 (constructed config_loop)) \<and>
      \<not> currentCharIndex (steps 6 (constructed config_loop)) > 0 \<and>
      currentStringIndex (steps 6 (constructed config_loop)) + 1
        \<ge> int (length (strings (options (steps 6 (constructed config_loop)))))"
    using six by (simp add: r)
  have cfg: "strings_arg config_loop \<noteq> [] \<and> loop_key config_loop = Some True \<and>
      \<not> startDelay (resolve config_loop) > 0"
    by (simp add: resolve_def config_loop_def only_strings_def)
  from C9_loop_wraps_and_repeats
    [of "steps 6 (constructed config_loop)" config_loop "constructed config_loop"]
    pre cfg six
  show ?thesis by simp
qed

subsection \<open>A destroyed engine stays as it is\<close>

lemma destroy_is_dead:
  "isDestroyed (destroy s) \<and> \<not> truthy (timeoutId (destroy s)) \<and>
   \<not> truthy (cursorIntervalId (destroy s)) \<and> this_showCursor (destroy s) \<and>
   \<not> cursorHidden (destroy s) \<and> elementChildren (destroy s) = []"
  by (simp add: destroy_def stop_def stopCursorBlink_def clearTimeout_def clearInterval_def
      Let_def truthy_def split: option.splits)

text \<open>
  On an engine in the state \<^verbatim>\<open>destroy()\<close> leaves, a call changes nothing but the
  window's queue, which loses the timeout that fired.
\<close>

lemma dead_exec:
  assumes "isDestroyed x" and "\<not> truthy (timeoutId x)" and "\<not> truthy (cursorIntervalId x)"
    and "this_showCursor x" and "\<not> cursorHidden x" and "elementChildren x = []"
  shows "\<exists>q. exec c x = Returned (x\<lparr>timeouts := q\<rparr>) \<and> set q \<subseteq> set (timeouts x)"
proof (cases c)
  case (FireTimeout h)
  show ?thesis
  proof (cases "h \<in> fst ` set (timeouts x)")
    case True
    then have "exec c x = Returned (x\<lparr>timeouts := filter (\<lambda>t. fst t \<noteq> h) (timeouts x)\<rparr>)"
      using FireTimeout assms(1) by (simp add: typeText_def clearTimeout_def)
    then show ?thesis by auto
  next
    case False
    then have "exec c x = Returned (x\<lparr>timeouts := timeouts x\<rparr>)" using FireTimeout by simp
    then show ?thesis by blast
  qed
next
  case (FireInterval h)
  then have "exec c x = Returned (x\<lparr>timeouts := timeouts x\<rparr>)"
    using assms(1) by (simp add: cursorTick_def)
  then show ?thesis by blast
next
  case Start
  then have "exec c x = Returned (x\<lparr>timeouts := timeouts x\<rparr>)"
    using assms(1) by (simp add: start_def)
  then show ?thesis by blast
next
  case Stop
  then have "exec c x = Returned (x\<lparr>timeouts := timeouts x\<rparr>)"
    using assms(2) by (simp add: stop_def)
  then show ?thesis by blast
next
  case Destroy
  then have "exec c x = Returned (x\<lparr>timeouts := timeouts x\<rparr>)"
    using assms by (simp add: destroy_def stop_def stopCursorBlink_def Let_def)
  then show ?thesis by blast
next
  case Reset
  then have "exec c x = Returned (x\<lparr>timeouts := timeouts x\<rparr>)"
    using assms(1) by (simp add: reset_def)
  then show ?thesis by blast
next
  case (UpdateOptions new)
  then have "exec c x = Returned (x\<lparr>timeouts := timeouts x\<rparr>)"
    using assms(1) by (simp add: updateOptions_def)
  then show ?thesis by blast
qed

lemma dead_run:
  assumes "isDestroyed x" and "\<not> truthy (timeoutId x)" and "\<not> truthy (cursorIntervalId x)"
    and "this_showCursor x" and "\<not> cursorHidden x" and "elementChildren x = []"
  shows "\<exists>q. run cs x = x\<lparr>timeouts := q\<rparr> \<and> set q \<subseteq> set (timeouts x)"
  using assms
proof (induction cs arbitrary: x)
  case Nil
  have "run [] x = x\<lparr>timeouts := timeouts x\<rparr>" by simp
  then show ?case by blast
next
  case (Cons c cs)
  from dead_exec [OF Cons.prems, of c] obtain q where
    q: "exec c x = Returned (x\<lparr>timeouts := q\<rparr>)" "set q \<subseteq> set (timeouts x)"
    by blast
  have "\<exists>q'. run cs (x\<lparr>timeouts := q\<rparr>) = x\<lparr>timeouts := q\<rparr>\<lparr>timeouts := q'\<rparr> \<and>
      set q' \<subseteq> set (timeouts (x\<lparr>timeouts := q\<rparr>))"
    using Cons.prems by (intro Cons.IH) simp_all
  then obtain q' where "run cs (x\<lparr>timeouts := q\<rparr>) = x\<lparr>timeouts := q'\<rparr>" "set q' \<subseteq> set q"
    by auto
  then show ?case using q by auto
qed

text \<open>
  C8. Whatever the engine's state \<open>s\<close>, after \<^verbatim>\<open>destroy()\<close>: a second \<^verbatim>\<open>destroy()\<close>
  leaves the very same state; \<^verbatim>\<open>start\<close>, \<^verbatim>\<open>stop\<close>, \<^verbatim>\<open>reset\<close> and \<^verbatim>\<open>updateOptions\<close>
  return normally and change nothing; a step callback or a cursor callback that the window
  still runs returns at its guard and changes nothing. After any sequence of calls and
  callbacks every field is as \<^verbatim>\<open>destroy()\<close> left it (no callback of the user is called, no
  text written, no timer created), except that the window's queue of stale timeouts may
  have shrunk; and no call throws. The timeout that \<^verbatim>\<open>timeoutId\<close> named and the cursor's
  interval are cancelled.
\<close>

theorem C8_destroy_is_absorbing:
  "isDestroyed (destroy s) \<and>
   destroy (destroy s) = destroy s \<and>
   start (destroy s) = Returned (destroy s) \<and>
   stop (destroy s) = destroy s \<and>
   reset (destroy s) = destroy s \<and>
   updateOptions new (destroy s) = destroy s \<and>
   typeText (destroy s) = Returned (destroy s) \<and>
   cursorTick (destroy s) = destroy s \<and>
   (\<forall>cs. run cs (destroy s) = (destroy s)\<lparr>timeouts := timeouts (run cs (destroy s))\<rparr> \<and>
         set (timeouts (run cs (destroy s))) \<subseteq> set (timeouts (destroy s))) \<and>
   (\<forall>cs c. \<not> threw (exec c (run cs (destroy s)))) \<and>
   (\<forall>h. timeoutId s = Some h \<and> h \<noteq> 0 \<longrightarrow> h \<notin> fst ` set (timeouts (destroy s))) \<and>
   (\<forall>h. cursorIntervalId s = Some h \<and> h \<noteq> 0 \<longrightarrow> h \<notin> fst ` set (intervals (destroy s)))"
proof -
  let ?d = "destroy s"
  note dead = destroy_is_dead [of s]
  have d1: "isDestroyed ?d" "\<not> truthy (timeoutId ?d)" "\<not> truthy (cursorIntervalId ?d)"
    "this_showCursor ?d" "\<not> cursorHidden ?d" "elementChildren ?d = []"
    using dead by simp_all
  have ops: "destroy ?d = ?d" "start ?d = Returned ?d" "stop ?d = ?d" "reset ?d = ?d"
    "updateOptions new ?d = ?d" "typeText ?d = Returned ?d" "cursorTick ?d = ?d"
    using d1
    by (simp_all add: start_def stop_def reset_def updateOptions_def typeText_def cursorTick_def)
      (simp add: destroy_def stop_def stopCursorBlink_def Let_def)
  have runs: "run cs ?d = ?d\<lparr>timeouts := timeouts (run cs ?d)\<rparr> \<and>
      set (timeouts (run cs ?d)) \<subseteq> set (timeouts ?d)" for cs
  proof -
    from dead_run [OF d1, of cs] obtain q where
      q: "run cs ?d = ?d\<lparr>timeouts := q\<rparr>" "set q \<subseteq> set (timeouts ?d)" by blast
    then show ?thesis by simp
  qed
  have nothrow: "\<not> threw (exec c (run cs ?d))" for cs c
  proof -
    from dead_run [OF d1, of cs] obtain q where q: "run cs ?d = ?d\<lparr>timeouts := q\<rparr>" by blast
    have "\<exists>q'. exec c (?d\<lparr>timeouts := q\<rparr>) = Returned (?d\<lparr>timeouts := q\<rparr>\<lparr>timeouts := q'\<rparr>)"
      using dead_exec [of "?d\<lparr>timeouts := q\<rparr>" c] d1 by auto
    then show ?thesis using q by auto
  qed
  have cancelled:
    "timeoutId s = Some h \<and> h \<noteq> 0 \<longrightarrow> h \<notin> fst ` set (timeouts ?d)"
    "cursorIntervalId s = Some h \<and> h \<noteq> 0 \<longrightarrow> h \<notin> fst ` set (intervals ?d)" for h
    by (auto simp: destroy_def stop_def stopCursorBlink_def clearTimeout_def clearInterval_def
        Let_def truthy_def)
  show ?thesis using d1(1) ops runs nothrow cancelled by blast
qed

text \<open>
  With \<^verbatim>\<open>{strings: ["ab"], loop: false}\<close>, destroyed right after construction: the step's
  timeout (handle 2) and the cursor's interval (handle 1) are gone, and a mixed sequence of
  calls leaves the state \<^verbatim>\<open>destroy()\<close> left.
\<close>

theorem C8_witness:
  "timeoutId (constructed config_ab) = Some 2 \<and> (2::nat) \<noteq> 0 \<and>
   2 \<notin> fst ` set (timeouts (destroy (constructed config_ab))) \<and>
   cursorIntervalId (constructed config_ab) = Some 1 \<and> (1::nat) \<noteq> 0 \<and>
   1 \<notin> fst ` set (intervals (destroy (constructed config_ab))) \<and>
   destroy (destroy (constructed config_ab)) = destroy (constructed config_ab) \<and>
   run [Start, FireTimeout 2, Reset, UpdateOptions strings_a, Destroy, Stop, FireInterval 1, Start]
     (destroy (constructed config_ab)) = destroy (constructed config_ab) \<and>
   trace (destroy (constructed config_ab)) = [OnStringStart 0, SetText ''a''] \<and>
   \<not> threw (exec Start (run [Reset, Destroy] (destroy (constructed config_ab))))"
proof -
  let ?d = "destroy (constructed config_ab)"
  let ?cs = "[Start, FireTimeout 2, Reset, UpdateOptions strings_a, Destroy, Stop, FireInterval 1,
    Start]"
  have ids: "timeoutId (constructed config_ab) = Some 2 \<and> (2::nat) \<noteq> 0"
    "cursorIntervalId (constructed config_ab) = Some 1 \<and> (1::nat) \<noteq> 0"
    by (simp_all add: eval_defs)
  have q: "timeouts ?d = []" "trace ?d = [OnStringStart 0, SetText ''a'']"
    by (simp_all add: eval_defs)
  note C8 = C8_destroy_is_absorbing [of "constructed config_ab" no_keys]
  from C8 have idem: "destroy ?d = ?d" by (elim conjE)
  from C8 have runs: "\<forall>cs. run cs ?d = ?d\<lparr>timeouts := timeouts (run cs ?d)\<rparr> \<and>
      set (timeouts (run cs ?d)) \<subseteq> set (timeouts ?d)"
    by (elim conjE)
  from C8 have nothrow: "\<forall>cs c. \<not> threw (exec c (run cs ?d))" by (elim conjE)
  from C8 have c1: "\<forall>h. timeoutId (constructed config_ab) = Some h \<and> h \<noteq> 0 \<longrightarrow>
      h \<notin> fst ` set (timeouts ?d)"
    by (elim conjE)
  from C8 have c2: "\<forall>h. cursorIntervalId (constructed config_ab) = Some h \<and> h \<noteq> 0 \<longrightarrow>
      h \<notin> fst ` set (intervals ?d)"
    by (elim conjE)
  have sub: "set (timeouts (run ?cs ?d)) \<subseteq> set (timeouts ?d)"
    using spec [OF runs, of ?cs] by (rule conjunct2)
  then have e: "timeouts (run ?cs ?d) = []" using q(1) by simp
  have "run ?cs ?d = ?d\<lparr>timeouts := timeouts (run ?cs ?d)\<rparr>"
    using spec [OF runs, of ?cs] by (rule conjunct1)
  then have "run ?cs ?d = ?d\<lparr>timeouts := timeouts ?d\<rparr>" by (simp only: e q(1))
  then have r: "run ?cs ?d = ?d" by simp
  have n: "\<not> threw (exec Start (run [Reset, Destroy] ?d))"
    using spec [OF spec [OF nothrow, of "[Reset, Destroy]"], of Start] .
  have a: "2 \<notin> fst ` set (timeouts ?d)" using c1 ids(1) by blast
  have b: "1 \<notin> fst ` set (intervals ?d)" using c2 ids(2) by blast
  show ?thesis using ids a b idem r q(2) n by blast
qed

subsection \<open>Where the engine loses track of a pending step\<close>

text \<open>
  \<^verbatim>\<open>start()\<close> never clears a timeout: on a live engine with some string it creates one
  timeout and leaves every pending one in the window's queue.
\<close>

lemma start_keeps_timeouts:
  assumes "strings (options s) \<noteq> []" and "\<not> isDestroyed s"
  shows "\<exists>s' d. start s = Returned s' \<and> timeouts s' = timeouts s @ [(nextHandle s, d)] \<and>
           timeoutId s' = Some (nextHandle s)"
proof (cases "strings (options s)")
  case Nil
  then show ?thesis using assms(1) by simp
next
  case (Cons str strs)
  then show ?thesis
    using assms(2) by (auto simp: start_def step_defs index_def)
qed

text \<open>A step never sets \<^verbatim>\<open>timeoutId\<close> back to \<^verbatim>\<open>null\<close>; only \<^verbatim>\<open>stop()\<close> does.\<close>

lemma typeText_keeps_isRunning: "isRunning s \<Longrightarrow> isRunning (after (typeText s))"
  by (auto simp: isRunning_def step_defs split: option.splits)

text \<open>
  C1, at \<^verbatim>\<open>new TypedText(el, {strings: ["ab"], loop: false})\<close> followed by \<^verbatim>\<open>start()\<close>.
  The constructor's step has typed "a" and left timeout 2 pending. \<^verbatim>\<open>start()\<close> resets the
  indices and phase and runs a step (so \<^verbatim>\<open>currentCharIndex\<close> is 1 again when it returns),
  but it does not cancel timeout 2: two step callbacks are pending, 2 and 3. Both fire, and
  each schedules a successor, so two steps are pending again (4 and 5); \<^verbatim>\<open>onStringStart(0)\<close>
  has been called twice and "a" written twice.
\<close>

theorem C1_start_leaves_two_pending_steps:
  "new_TypedText True config_ab = Inr (constructed config_ab) \<and>
   map fst (timeouts (constructed config_ab)) = [2] \<and>
   timeoutId (constructed config_ab) = Some 2 \<and>
   map fst (timeouts (run [Start] (constructed config_ab))) = [2, 3] \<and>
   timeoutId (run [Start] (constructed config_ab)) = Some 3 \<and>
   currentStringIndex (run [Start] (constructed config_ab)) = 0 \<and>
   currentCharIndex (run [Start] (constructed config_ab)) = 1 \<and>
   isTyping (run [Start] (constructed config_ab)) \<and>
   map fst (timeouts (run [Start, FireTimeout 2, FireTimeout 3] (constructed config_ab))) = [4, 5] \<and>
   trace (run [Start, FireTimeout 2, FireTimeout 3] (constructed config_ab)) =
     [OnStringStart 0, SetText ''a'', OnStringStart 0, SetText ''a'', SetText ''ab'',
      OnStringComplete 0]"
  by (simp add: new_TypedText_constructed) (simp add: eval_defs)

text \<open>
  C2, at \<^verbatim>\<open>new TypedText(el, {strings: ["ab"], loop: false})\<close>, left alone. Five steps after
  construction the cycle is over: "a", "ab", completion of the string, "a", "", and the
  step that calls \<^verbatim>\<open>onComplete\<close>, exactly once, and schedules nothing. No timeout is
  pending, yet \<^verbatim>\<open>timeoutId\<close> still holds the handle of the timeout that fired last, so
  \<^verbatim>\<open>isRunning()\<close> returns true. (A further step does nothing: that handle is not pending.)
\<close>

theorem C2_isRunning_true_after_completion:
  "new_TypedText True config_ab = Inr (constructed config_ab) \<and>
   trace (steps 5 (constructed config_ab)) =
     [OnStringStart 0, SetText ''a'', SetText ''ab'', OnStringComplete 0, SetText ''a'',
      SetText [], OnComplete] \<and>
   count_list (trace (steps 5 (constructed config_ab))) OnComplete = 1 \<and>
   timeouts (steps 5 (constructed config_ab)) = [] \<and>
   timeoutId (steps 5 (constructed config_ab)) = Some 6 \<and>
   isRunning (steps 5 (constructed config_ab)) \<and>
   steps 6 (constructed config_ab) = steps 5 (constructed config_ab)"
  by (simp add: new_TypedText_constructed) (simp add: eval_defs steps_numeral)

text \<open>
  C4, at \<^verbatim>\<open>new TypedText(el, {strings: ["ab"], startDelay: 100})\<close> followed by \<^verbatim>\<open>stop()\<close>.
  The constructor has queued the first step (timeout 2, 100 ms) without storing its handle:
  \<^verbatim>\<open>timeoutId\<close> is \<^verbatim>\<open>null\<close> and \<^verbatim>\<open>isRunning()\<close> false. \<^verbatim>\<open>stop()\<close> therefore changes
  nothing, the step stays queued, and when it fires after \<^verbatim>\<open>stop()\<close> it calls
  \<^verbatim>\<open>onStringStart(0)\<close>, writes "a" and schedules the next step (timeout 3).
\<close>

theorem C4_stop_misses_start_delay_step:
  "new_TypedText True config_delayed = Inr (constructed config_delayed) \<and>
   timeouts (constructed config_delayed) = [(2, 100)] \<and>
   timeoutId (constructed config_delayed) = None \<and>
   \<not> isRunning (constructed config_delayed) \<and>
   stop (constructed config_delayed) = constructed config_delayed \<and>
   timeouts (run [Stop] (constructed config_delayed)) = [(2, 100)] \<and>
   trace (run [Stop] (constructed config_delayed)) = [] \<and>
   trace (run [Stop, FireTimeout 2] (constructed config_delayed)) =
     [OnStringStart 0, SetText ''a''] \<and>
   textContent (run [Stop, FireTimeout 2] (constructed config_delayed)) = ''a'' \<and>
   map fst (timeouts (run [Stop, FireTimeout 2] (constructed config_delayed))) = [3]"
  by (simp add: new_TypedText_constructed) (simp add: eval_defs)

end
